theory Spec2Isabelle
  imports Complex_Main "HOL-Library.Word" "HOL-Library.Log_Nat"
begin

unbundle bit_operations_syntax

section \<open>Python values\<close>

text \<open>
  A Python float is a binary64 value: a real number or one of the three special values.
  Comparisons, \<open>min\<close>, \<open>max\<close>, \<open>abs\<close> and the conversions behave on the special
  values as CPython does, and every arithmetic operation returns the exact result rounded
  to the nearest binary64 value, ties to even (\<open>round64\<close> below).  There is no negative
  zero.  A finite value also stands for a Python \<open>int\<close> stored where a float is expected
  (the tests build frames from \<open>0\<close>).
\<close>

datatype pyfloat = Fin real | PosInf | NegInf | NaN

text \<open>The exceptions that occur; the last two do not derive from \<open>Exception\<close>.\<close>

datatype pyexn =
    TypeError | ValueError | OverflowError | IndexError | AttributeError
  | ZeroDivisionError | RuntimeError | StructError | SerialException
  | UserException string
  | KeyboardInterrupt | SystemExit

fun is_Exception :: "pyexn \<Rightarrow> bool" where
  "is_Exception KeyboardInterrupt = False"
| "is_Exception SystemExit = False"
| "is_Exception _ = True"

text \<open>
  Raw data as a generator or a caller may hand it over: the plain Python values, and
  \<open>PObj\<close> for an instance of any other class, given by what \<open>bool\<close>, \<open>float\<close> and
  \<open>int\<close> do on it (through \<open>__bool__\<close> or \<open>__len__\<close>, \<open>__float__\<close>, \<open>__int__\<close>): each
  returns a value or raises.  An object without the method in question is rejected by
  \<open>float\<close> and \<open>int\<close> with \<open>TypeError\<close> and is truthy.
\<close>

datatype pyval =
    PNone
  | PBool bool
  | PInt int
  | PFloat pyfloat
  | PStr string
  | PList "pyval list"
  | PTuple "pyval list"
  | PDict "(pyval \<times> pyval) list"
  | PObj "pyexn + bool" "pyexn + pyfloat" "pyexn + int"

subsection \<open>Float comparisons and arithmetic\<close>

fun pf_lt :: "pyfloat \<Rightarrow> pyfloat \<Rightarrow> bool" where
  "pf_lt NaN _ = False"
| "pf_lt _ NaN = False"
| "pf_lt (Fin a) (Fin b) = (a < b)"
| "pf_lt (Fin a) PosInf = True"
| "pf_lt (Fin a) NegInf = False"
| "pf_lt NegInf NegInf = False"
| "pf_lt NegInf _ = True"
| "pf_lt PosInf _ = False"

fun pf_le :: "pyfloat \<Rightarrow> pyfloat \<Rightarrow> bool" where
  "pf_le NaN _ = False"
| "pf_le _ NaN = False"
| "pf_le (Fin a) (Fin b) = (a \<le> b)"
| "pf_le (Fin a) PosInf = True"
| "pf_le (Fin a) NegInf = False"
| "pf_le NegInf _ = True"
| "pf_le PosInf PosInf = True"
| "pf_le PosInf _ = False"

definition pf_gt :: "pyfloat \<Rightarrow> pyfloat \<Rightarrow> bool" where
  "pf_gt a b = pf_lt b a"

definition pf_ge :: "pyfloat \<Rightarrow> pyfloat \<Rightarrow> bool" where
  "pf_ge a b = pf_le b a"

fun pf_abs :: "pyfloat \<Rightarrow> pyfloat" where
  "pf_abs (Fin a) = Fin \<bar>a\<bar>"
| "pf_abs PosInf = PosInf"
| "pf_abs NegInf = PosInf"
| "pf_abs NaN = NaN"

fun pf_neg :: "pyfloat \<Rightarrow> pyfloat" where
  "pf_neg (Fin a) = Fin (- a)"
| "pf_neg PosInf = NegInf"
| "pf_neg NegInf = PosInf"
| "pf_neg NaN = NaN"

text \<open>
  Rounding a real number to binary64.  For \<open>a > 0\<close>, \<open>ilog2 a\<close> is the exponent \<open>e\<close> with
  \<open>2^e \<le> a < 2^(e+1)\<close>; the spacing of the binary64 values around \<open>a\<close> is
  \<open>2^(max e (-1022) - 52)\<close>; the magnitude is rounded to the nearest multiple of it, a tie
  going to the even multiple; a result of \<open>2^1024\<close> or more is an infinity.
\<close>

definition ilog2_small :: "real \<Rightarrow> int \<Rightarrow> int" where
  "ilog2_small a k = (if a * 2 ^ nat k = 1 then - k else - k - 1)"

definition ilog2 :: "real \<Rightarrow> int" where
  "ilog2 a =
     (if a \<ge> 1 then bitlen \<lfloor>a\<rfloor> - 1 else ilog2_small a (bitlen \<lfloor>1 / a\<rfloor> - 1))"

definition pow2 :: "int \<Rightarrow> real" where
  "pow2 e = (if e \<ge> 0 then 2 ^ nat e else 1 / 2 ^ nat (- e))"

definition half_even :: "int \<Rightarrow> real \<Rightarrow> int" where
  "half_even f d =
     (if d < 1 / 2 then f else if d > 1 / 2 then f + 1 else if even f then f else f + 1)"

definition round_from :: "real \<Rightarrow> int \<Rightarrow> int" where
  "round_from y f = half_even f (y - of_int f)"

definition round_half_even :: "real \<Rightarrow> int" where
  "round_half_even y = round_from y \<lfloor>y\<rfloor>"

definition signed_or_inf :: "real \<Rightarrow> real \<Rightarrow> pyfloat" where
  "signed_or_inf x r =
     (if bitlen \<lfloor>r\<rfloor> > 1024 then (if x > 0 then PosInf else NegInf)
      else Fin (if x > 0 then r else - r))"

definition quantize :: "real \<Rightarrow> real \<Rightarrow> pyfloat" where
  "quantize x q = signed_or_inf x (of_int (round_half_even (\<bar>x\<bar> / q)) * q)"

definition round64 :: "real \<Rightarrow> pyfloat" where
  "round64 x =
     (if x = 0 then Fin 0 else quantize x (pow2 (max (ilog2 \<bar>x\<bar>) (- 1022) - 52)))"

text \<open>The values a float can have: the special ones and the reals that rounding keeps.\<close>

fun is_double :: "pyfloat \<Rightarrow> bool" where
  "is_double (Fin r) = (round64 r = Fin r)"
| "is_double _ = True"

fun pf_add :: "pyfloat \<Rightarrow> pyfloat \<Rightarrow> pyfloat" where
  "pf_add NaN _ = NaN"
| "pf_add _ NaN = NaN"
| "pf_add (Fin a) (Fin b) = round64 (a + b)"
| "pf_add (Fin a) b = b"
| "pf_add PosInf NegInf = NaN"
| "pf_add NegInf PosInf = NaN"
| "pf_add a _ = a"

definition pf_sub :: "pyfloat \<Rightarrow> pyfloat \<Rightarrow> pyfloat" where
  "pf_sub a b = pf_add a (pf_neg b)"

text \<open>The sign of a non-NaN float: \<open>-1\<close>, \<open>0\<close> or \<open>1\<close>.\<close>

fun pf_sgn :: "pyfloat \<Rightarrow> int" where
  "pf_sgn (Fin a) = (if a < 0 then - 1 else if a = 0 then 0 else 1)"
| "pf_sgn PosInf = 1"
| "pf_sgn NegInf = - 1"
| "pf_sgn NaN = 0"

fun pf_mul :: "pyfloat \<Rightarrow> pyfloat \<Rightarrow> pyfloat" where
  "pf_mul NaN _ = NaN"
| "pf_mul _ NaN = NaN"
| "pf_mul (Fin a) (Fin b) = round64 (a * b)"
| "pf_mul a b =
     (if pf_sgn a * pf_sgn b = 0 then NaN
      else if pf_sgn a * pf_sgn b > 0 then PosInf else NegInf)"

text \<open>Division raises on a zero divisor; the source only ever divides by \<open>1.0\<close>.\<close>

fun pf_div :: "pyfloat \<Rightarrow> pyfloat \<Rightarrow> pyexn + pyfloat" where
  "pf_div a (Fin b) =
     (if b = 0 then Inl ZeroDivisionError
      else case a of Fin x \<Rightarrow> Inr (round64 (x / b)) | NaN \<Rightarrow> Inr NaN
        | _ \<Rightarrow> Inr (if b > 0 then a else pf_neg a))"
| "pf_div a NaN = Inr NaN"
| "pf_div (Fin x) _ = Inr (Fin 0)"
| "pf_div _ _ = Inr NaN"

text \<open>\<open>math.sqrt\<close>: a domain error below zero.\<close>

fun math_sqrt :: "pyfloat \<Rightarrow> pyexn + pyfloat" where
  "math_sqrt (Fin a) = (if a < 0 then Inl ValueError else Inr (round64 (sqrt a)))"
| "math_sqrt PosInf = Inr PosInf"
| "math_sqrt NegInf = Inl ValueError"
| "math_sqrt NaN = Inr NaN"

text \<open>Not below zero: what a sum of squares is, where it is a number at all.\<close>

definition nonneg_float :: "pyfloat \<Rightarrow> bool" where
  "nonneg_float x = (case x of Fin r \<Rightarrow> 0 \<le> r | PosInf \<Rightarrow> True | NegInf \<Rightarrow> False | NaN \<Rightarrow> True)"

text \<open>
  The two-argument builtins \<open>min(a, b)\<close> and \<open>max(a, b)\<close>: the first argument is kept
  unless the second compares strictly smaller (larger).  With a NaN second argument the
  first one is returned.
\<close>

definition py_min :: "pyfloat \<Rightarrow> pyfloat \<Rightarrow> pyfloat" where
  "py_min a b = (if pf_lt b a then b else a)"

definition py_max :: "pyfloat \<Rightarrow> pyfloat \<Rightarrow> pyfloat" where
  "py_max a b = (if pf_gt b a then b else a)"

subsection \<open>Conversions\<close>

text \<open>
  Parsing a string as a number is the interpreter's business; the two parsers are
  parameters of the model, \<open>None\<close> standing for the \<open>ValueError\<close> of a rejected string.
  The third field is what \<open>struct\<close> writes for the format \<open>f\<close>: the IEEE binary32
  pattern nearest to the value.
\<close>

record builtins =
  str_float :: "string \<Rightarrow> pyfloat option"
  str_int :: "string \<Rightarrow> int option"
  f32_bits :: "pyfloat \<Rightarrow> 32 word"

text \<open>\<open>bool(x)\<close>, the truth test.\<close>

fun py_bool :: "pyval \<Rightarrow> pyexn + bool" where
  "py_bool PNone = Inr False"
| "py_bool (PBool b) = Inr b"
| "py_bool (PInt i) = Inr (i \<noteq> 0)"
| "py_bool (PFloat x) = Inr (x \<noteq> Fin 0)"
| "py_bool (PStr s) = Inr (s \<noteq> [])"
| "py_bool (PList xs) = Inr (xs \<noteq> [])"
| "py_bool (PTuple xs) = Inr (xs \<noteq> [])"
| "py_bool (PDict kvs) = Inr (kvs \<noteq> [])"
| "py_bool (PObj t f i) = t"

text \<open>
  \<open>float(x)\<close>.  An \<open>int\<close> is rounded; one that rounds beyond the largest double raises
  \<open>OverflowError\<close>.
\<close>

fun py_float :: "builtins \<Rightarrow> pyval \<Rightarrow> pyexn + pyfloat" where
  "py_float B (PBool b) = Inr (Fin (if b then 1 else 0))"
| "py_float B (PInt i) =
     (case round64 (of_int i) of Fin r \<Rightarrow> Inr (Fin r) | _ \<Rightarrow> Inl OverflowError)"
| "py_float B (PFloat x) = Inr x"
| "py_float B (PStr s) = (case str_float B s of None \<Rightarrow> Inl ValueError | Some x \<Rightarrow> Inr x)"
| "py_float B (PObj t f i) = f"
| "py_float B _ = Inl TypeError"

text \<open>\<open>int(x)\<close>: a float is truncated towards zero.\<close>

fun py_int :: "builtins \<Rightarrow> pyval \<Rightarrow> pyexn + int" where
  "py_int B (PBool b) = Inr (if b then 1 else 0)"
| "py_int B (PInt i) = Inr i"
| "py_int B (PFloat (Fin r)) = Inr (if r \<ge> 0 then \<lfloor>r\<rfloor> else \<lceil>r\<rceil>)"
| "py_int B (PFloat NaN) = Inl ValueError"
| "py_int B (PFloat _) = Inl OverflowError"
| "py_int B (PStr s) = (case str_int B s of None \<Rightarrow> Inl ValueError | Some i \<Rightarrow> Inr i)"
| "py_int B (PObj t f i) = i"
| "py_int B _ = Inl TypeError"

text \<open>\<open>isinstance(x, (list, tuple))\<close>, with the items when it holds.\<close>

fun seq_items :: "pyval \<Rightarrow> pyval list option" where
  "seq_items (PList xs) = Some xs"
| "seq_items (PTuple xs) = Some xs"
| "seq_items _ = None"

text \<open>\<open>obj.get(key)\<close> on a dict: \<open>None\<close> for a missing key.\<close>

definition dict_get :: "(pyval \<times> pyval) list \<Rightarrow> string \<Rightarrow> pyval" where
  "dict_get kvs k = (case map_of kvs (PStr k) of None \<Rightarrow> PNone | Some v \<Rightarrow> v)"

text \<open>Indexing a sequence with a non-negative index.\<close>

definition seq_get :: "'a list \<Rightarrow> nat \<Rightarrow> pyexn + 'a" where
  "seq_get xs i = (if i < length xs then Inr (xs ! i) else Inl IndexError)"

text \<open>Sequencing of steps that may raise: the first exception ends the computation.\<close>

definition bind_exn :: "pyexn + 'a \<Rightarrow> ('a \<Rightarrow> pyexn + 'b) \<Rightarrow> pyexn + 'b" where
  "bind_exn r k = (case r of Inl e \<Rightarrow> Inl e | Inr v \<Rightarrow> k v)"

fun those_exn :: "(pyexn + 'a) list \<Rightarrow> pyexn + 'a list" where
  "those_exn [] = Inr []"
| "those_exn (r # rs) = bind_exn r (\<lambda>v. bind_exn (those_exn rs) (\<lambda>vs. Inr (v # vs)))"

section \<open>base.py: FrameState\<close>

record FrameState =
  buttons :: "bool list"
  axes :: "pyfloat list"
  dpad :: "int \<times> int"

text \<open>The default constructor.\<close>

definition default_state :: FrameState where
  "default_state = \<lparr>buttons = replicate 10 False, axes = replicate 6 (Fin 0), dpad = (0, 0)\<rparr>"

definition to_dict :: "FrameState \<Rightarrow> pyval" where
  "to_dict s = PDict
     [(PStr ''buttons'', PList (map PBool (buttons s))),
      (PStr ''axes'', PList (map PFloat (axes s))),
      (PStr ''dpad'', PTuple [PInt (fst (dpad s)), PInt (snd (dpad s))])]"

text \<open>
  A handler \<open>except Exception\<close> ends the failure only for an instance of \<open>Exception\<close>;
  anything else goes on to the caller.
\<close>

definition to_float_clamped :: "builtins \<Rightarrow> pyval \<Rightarrow> pyexn + pyfloat" where
  "to_float_clamped B x =
     (case py_float B x of
        Inl e \<Rightarrow> if is_Exception e then Inr (Fin 0) else Inl e
      | Inr v \<Rightarrow> Inr (py_max (Fin (- 1)) (py_min (Fin 1) v)))"

text \<open>
  The body of the \<open>try\<close> in the \<open>dpad\<close> block: both conversions and the indexing sit
  inside it.
\<close>

definition dpad_try :: "builtins \<Rightarrow> pyval list \<Rightarrow> pyexn + int \<times> int" where
  "dpad_try B d =
     (case seq_get d 0 of Inl e \<Rightarrow> Inl e | Inr d0 \<Rightarrow>
       (case py_int B d0 of Inl e \<Rightarrow> Inl e | Inr hx \<Rightarrow>
         (case seq_get d 1 of Inl e \<Rightarrow> Inl e | Inr d1 \<Rightarrow>
           (case py_int B d1 of Inl e \<Rightarrow> Inl e | Inr hy \<Rightarrow>
              Inr (max (- 1) (min 1 hx), max (- 1) (min 1 hy))))))"

text \<open>
  \<open>_normalize_values\<close>; the dict \<open>out\<close> has exactly the three keys of a frame.  The
  truth tests of the \<open>buttons\<close> comprehension are not inside any \<open>try\<close>.
\<close>

definition normalize_values :: "builtins \<Rightarrow> pyval \<Rightarrow> pyexn + FrameState" where
  "normalize_values B obj =
     (let out = \<lparr>buttons = replicate 10 False, axes = replicate 6 (Fin 0), dpad = (0, 0)\<rparr>
      in case obj of
        PDict kvs \<Rightarrow>
          bind_exn
            (case seq_items (dict_get kvs ''buttons'') of
               Some bs \<Rightarrow>
                 bind_exn (those_exn (map py_bool bs)) (\<lambda>b.
                   Inr (out\<lparr>buttons := take 10 (b @ replicate 10 False)\<rparr>))
             | None \<Rightarrow> Inr out)
            (\<lambda>out1.
          bind_exn
            (case seq_items (dict_get kvs ''axes'') of
               Some as \<Rightarrow>
                 bind_exn (those_exn (map (to_float_clamped B) as)) (\<lambda>a.
                   Inr (out1\<lparr>axes := take 6 (a @ replicate 6 (Fin 0))\<rparr>))
             | None \<Rightarrow> Inr out1)
            (\<lambda>out2.
               (case seq_items (dict_get kvs ''dpad'') of
                  Some d \<Rightarrow>
                    (if length d \<ge> 2
                     then (case dpad_try B d of
                             Inr hv \<Rightarrow> Inr (out2\<lparr>dpad := hv\<rparr>)
                           | Inl e \<Rightarrow> if is_Exception e then Inr out2 else Inl e)
                     else Inr out2)
                | None \<Rightarrow> Inr out2)))
      | _ \<Rightarrow> Inr out)"

definition from_dict :: "builtins \<Rightarrow> pyval \<Rightarrow> pyexn + FrameState" where
  "from_dict B obj =
     bind_exn (normalize_values B obj) (\<lambda>data.
       Inr \<lparr>buttons = buttons data, axes = axes data, dpad = dpad data\<rparr>)"

text \<open>
  The entries of a sequence-valued field of a raw sample, and the plain Python values
  (everything but \<open>PObj\<close>).
\<close>

definition field_items :: "pyval \<Rightarrow> string \<Rightarrow> pyval list" where
  "field_items raw k =
     (case raw of
        PDict kvs \<Rightarrow> (case seq_items (dict_get kvs k) of Some xs \<Rightarrow> xs | None \<Rightarrow> [])
      | _ \<Rightarrow> [])"

fun is_plain :: "pyval \<Rightarrow> bool" where
  "is_plain (PObj t f i) = False"
| "is_plain _ = True"

subsection \<open>The data-model invariants\<close>

definition axis_ok :: "pyfloat \<Rightarrow> bool" where
  "axis_ok a = (pf_le (Fin (- 1)) a \<and> pf_le a (Fin 1))"

definition hat_ok :: "int \<Rightarrow> bool" where
  "hat_ok h = (h = - 1 \<or> h = 0 \<or> h = 1)"

definition frame_ok :: "FrameState \<Rightarrow> bool" where
  "frame_ok s =
     (length (buttons s) = 10 \<and> length (axes s) = 6 \<and> list_all axis_ok (axes s)
      \<and> hat_ok (fst (dpad s)) \<and> hat_ok (snd (dpad s)))"

section \<open>modules: the shipped modifiers\<close>

subsection \<open>antirecoil.py\<close>

record BasicAntiRecoilModifier =
  recoil_strength :: pyfloat
  trigger_threshold :: pyfloat

definition BasicAntiRecoilModifier_init :: BasicAntiRecoilModifier where
  "BasicAntiRecoilModifier_init =
     \<lparr>recoil_strength = round64 (3 / 10), trigger_threshold = round64 (1 / 10)\<rparr>"

text \<open>
  \<open>update\<close>: the three reads raise \<open>IndexError\<close> on a frame with too few axes.  Both
  branches on the stick magnitude store the same sum.  A decimal literal of the source
  is the binary64 value nearest to it.
\<close>

definition BasicAntiRecoilModifier_update ::
    "BasicAntiRecoilModifier \<Rightarrow> FrameState \<Rightarrow> pyexn + FrameState" where
  "BasicAntiRecoilModifier_update m state =
     (let ax = axes state in
      bind_exn (seq_get ax 2) (\<lambda>right_x.
      bind_exn (seq_get ax 3) (\<lambda>right_y.
      bind_exn (seq_get ax 5) (\<lambda>rt.
        if pf_ge rt (trigger_threshold m) then
          bind_exn (pf_div rt (Fin 1)) (\<lambda>q.
            let recoil_force = pf_mul (pf_abs (recoil_strength m)) q in
            bind_exn (math_sqrt (pf_add (pf_mul right_x right_x) (pf_mul right_y right_y)))
              (\<lambda>current_magnitude.
                let ax' = (if pf_gt current_magnitude (round64 (1 / 100))
                           then (ax[2 := right_x])[3 := pf_add right_y recoil_force]
                           else ax[3 := pf_add (ax ! 3) recoil_force])
                in Inr \<lparr>buttons = buttons state, axes = ax', dpad = dpad state\<rparr>))
        else Inr \<lparr>buttons = buttons state, axes = ax, dpad = dpad state\<rparr>))))"

subsection \<open>deadzones.py\<close>

record DeadzoneModifier =
  deadzone_left :: pyfloat
  deadzone_right :: pyfloat

definition DeadzoneModifier_init :: "pyfloat \<Rightarrow> pyfloat \<Rightarrow> DeadzoneModifier" where
  "DeadzoneModifier_init l r = \<lparr>deadzone_left = l, deadzone_right = r\<rparr>"

text \<open>One element of the comprehension over \<open>range(4)\<close>.\<close>

definition deadzone_axis :: "pyfloat list \<Rightarrow> pyfloat list \<Rightarrow> nat \<Rightarrow> pyexn + pyfloat" where
  "deadzone_axis deadzones ax i =
     bind_exn (seq_get ax i) (\<lambda>v.
       Inr (if pf_lt (pf_abs v) (deadzones ! i) then Fin 0 else v))"

definition DeadzoneModifier_update :: "DeadzoneModifier \<Rightarrow> FrameState \<Rightarrow> pyexn + FrameState" where
  "DeadzoneModifier_update m state =
     (let ax = axes state;
          deadzones = replicate 2 (deadzone_left m) @ replicate 2 (deadzone_right m)
      in bind_exn (those_exn (map (deadzone_axis deadzones ax) [0..<4])) (\<lambda>new_axes.
           Inr \<lparr>buttons = buttons state, axes = new_axes @ drop 4 ax, dpad = dpad state\<rparr>))"

text \<open>The deadzone that applies to stick axis \<open>i\<close>: \<open>deadzones[i]\<close> of the source.\<close>

definition stick_deadzone :: "DeadzoneModifier \<Rightarrow> nat \<Rightarrow> pyfloat" where
  "stick_deadzone m i = (if i < 2 then deadzone_left m else deadzone_right m)"

text \<open>The value the deadzone comprehension yields for stick axis \<open>i\<close> once it is read.\<close>

definition deadzone_value :: "DeadzoneModifier \<Rightarrow> pyfloat list \<Rightarrow> nat \<Rightarrow> pyfloat" where
  "deadzone_value m ax i =
     (if pf_lt (pf_abs (ax ! i)) (stick_deadzone m i) then Fin 0 else ax ! i)"

record HairTriggers =
  threshold :: pyfloat

definition HairTriggers_update :: "HairTriggers \<Rightarrow> FrameState \<Rightarrow> pyexn + FrameState" where
  "HairTriggers_update m state =
     (let ax = axes state in
      bind_exn (seq_get ax 5) (\<lambda>rt.
        Inr \<lparr>buttons = buttons state,
             axes = (if pf_gt rt (threshold m) then ax[5 := Fin 1] else ax[5 := Fin (- 1)]),
             dpad = dpad state\<rparr>))"

subsection \<open>twitchchat.py\<close>

text \<open>
  The modifier's private state is the listener's queue, oldest message first.  A message
  is a dict such as \<open>{"user": "xyz", "msg": "left"}\<close>; the listener never queues a falsy
  value.  \<open>update\<close> returns the frame and the queue it leaves behind.
\<close>

type_synonym chat_msg = "(pyval \<times> pyval) list"

definition TwitchChatModifier_update ::
    "chat_msg list \<Rightarrow> FrameState \<Rightarrow> (pyexn + FrameState) \<times> chat_msg list" where
  "TwitchChatModifier_update msg_queue state =
     (case msg_queue of
        [] \<Rightarrow> (Inr state, [])
      | msg # rest \<Rightarrow>
          (let ax = axes state in
           (if msg \<noteq> [] \<and> dict_get msg ''msg'' = PStr ''left'' then
              bind_exn (seq_get ax 0) (\<lambda>a0.
                Inr \<lparr>buttons = buttons state,
                     axes = ax[0 := py_max (Fin (- 1)) (pf_sub a0 (Fin (1 / 2)))],
                     dpad = dpad state\<rparr>)
            else if msg \<noteq> [] \<and> dict_get msg ''msg'' = PStr ''right'' then
              bind_exn (seq_get ax 0) (\<lambda>a0.
                Inr \<lparr>buttons = buttons state,
                     axes = ax[0 := py_min (Fin 1) (pf_add a0 (Fin (1 / 2)))],
                     dpad = dpad state\<rparr>)
            else Inr \<lparr>buttons = buttons state, axes = ax, dpad = dpad state\<rparr>,
            rest)))"

section \<open>serial_interface.py\<close>

type_synonym byte = "8 word"

subsection \<open>The \<open>struct\<close> formats used\<close>

text \<open>\<open>H\<close>: an unsigned 16-bit value, low byte first; out of range is \<open>struct.error\<close>.\<close>

definition pack_H :: "int \<Rightarrow> pyexn + byte list" where
  "pack_H v =
     (if 0 \<le> v \<and> v \<le> 65535 then Inr [word_of_int (v mod 256), word_of_int (v div 256)]
      else Inl StructError)"

text \<open>\<open>B\<close>: one unsigned byte.\<close>

definition pack_B :: "int \<Rightarrow> pyexn + byte list" where
  "pack_B v = (if 0 \<le> v \<and> v \<le> 255 then Inr [word_of_int v] else Inl StructError)"

text \<open>The four bytes of a 32-bit pattern, least significant first.\<close>

definition le32 :: "32 word \<Rightarrow> byte list" where
  "le32 w = [ucast w, ucast (drop_bit 8 w), ucast (drop_bit 16 w), ucast (drop_bit 24 w)]"

text \<open>
  \<open>f\<close>: a finite value that rounds to a binary32 infinity raises \<open>OverflowError\<close>, that
  is from \<open>2^128 - 2^103\<close> on in magnitude.
\<close>

definition pack_f :: "builtins \<Rightarrow> pyfloat \<Rightarrow> pyexn + byte list" where
  "pack_f B x =
     (case x of
        Fin r \<Rightarrow> if \<bar>r\<bar> \<ge> 2 ^ 128 - 2 ^ 103 then Inl OverflowError else Inr (le32 (f32_bits B x))
      | _ \<Rightarrow> Inr (le32 (f32_bits B x)))"

subsection \<open>Packet\<close>

record Packet =
  pk_buttons :: int
  pk_axes :: "pyfloat list"
  dpad_code :: int

definition HEADER :: int where
  "HEADER = 255"

definition pack :: "builtins \<Rightarrow> Packet \<Rightarrow> pyexn + byte list" where
  "pack B p =
     (let ax = take 6 (pk_axes p @ replicate 6 (Fin 0)) in
      bind_exn (pack_H (pk_buttons p)) (\<lambda>h.
      bind_exn (those_exn (map (pack_f B) ax)) (\<lambda>fs.
      bind_exn (pack_B (dpad_code p)) (\<lambda>d.
        let payload = h @ concat fs @ d;
            checksum = sum_list (map uint payload) AND 255
        in bind_exn (pack_B HEADER) (\<lambda>hd.
           bind_exn (pack_B checksum) (\<lambda>c. Inr (hd @ payload @ c)))))))"

subsection \<open>SerialInterface\<close>

text \<open>
  The port object behind \<open>self.ser\<close> (pyserial's \<open>Serial\<close>, or the recording stand-in of
  the tests): it keeps what was written, in order.  A port with a \<open>fault\<close> fails every
  write with that exception and records nothing.
\<close>

record Serial =
  written_data :: "byte list list"
  is_open :: bool
  fault :: "pyexn option"

definition ser_write :: "Serial \<Rightarrow> byte list \<Rightarrow> pyexn option \<times> Serial" where
  "ser_write port data =
     (case fault port of
        Some e \<Rightarrow> (Some e, port)
      | None \<Rightarrow> (None, port\<lparr>written_data := written_data port @ [data]\<rparr>))"

record SerialInterface =
  ser :: "Serial option"

text \<open>\<open>str.upper\<close> on ASCII letters.\<close>

definition upper_char :: "char \<Rightarrow> char" where
  "upper_char c =
     (if 97 \<le> (of_char c :: nat) \<and> (of_char c :: nat) \<le> 122
      then char_of ((of_char c :: nat) - 32) else c)"

text \<open>
  \<open>__init__\<close>: no port for a falsy argument or a name that starts with \<open>MOCK\<close> in any
  case; otherwise the port is opened, which is the operating system's answer \<open>open_port\<close>.
  (The test \<open>serial is None\<close> before opening cannot succeed once the module is imported.)
\<close>

definition SerialInterface_init ::
    "(string \<Rightarrow> pyexn + Serial) \<Rightarrow> string option \<Rightarrow> pyexn + SerialInterface" where
  "SerialInterface_init open_port port =
     (case port of
        None \<Rightarrow> Inr \<lparr>ser = None\<rparr>
      | Some name \<Rightarrow>
          if name = [] \<or> take 4 (map upper_char name) = ''MOCK'' then Inr \<lparr>ser = None\<rparr>
          else bind_exn (open_port name) (\<lambda>s. Inr \<lparr>ser = Some s\<rparr>))"

fun bitmask_loop :: "(nat \<times> bool) list \<Rightarrow> int \<Rightarrow> int" where
  "bitmask_loop [] msk = msk"
| "bitmask_loop ((i, pressed) # rest) msk =
     bitmask_loop rest (if pressed then msk OR push_bit i 1 else msk)"

definition buttons_to_bitmask :: "bool list \<Rightarrow> int" where
  "buttons_to_bitmask bs = bitmask_loop (enumerate 0 bs) 0 AND 65535"

definition dpad_encode :: "int \<times> int \<Rightarrow> int" where
  "dpad_encode d = (case d of (hx, hy) \<Rightarrow> (hx + 1) + (hy + 1) * 3)"

text \<open>What a caller may pass to \<open>send_frame\<close>: a \<open>FrameState\<close> or anything else.\<close>

datatype frame_arg = IsFrame FrameState | NotFrame pyval

text \<open>
  \<open>send_frame\<close> returns the exception raised, if any, and the interface afterwards.  The
  packet (\<open>frame_packet\<close>, the \<open>Packet(...)\<close> expression) is built before the port is
  looked at, and packed before it is written.
\<close>

definition frame_packet :: "FrameState \<Rightarrow> Packet" where
  "frame_packet fs =
     \<lparr>pk_buttons = buttons_to_bitmask (buttons fs), pk_axes = axes fs,
      dpad_code = dpad_encode (dpad fs)\<rparr>"

definition send_frame ::
    "builtins \<Rightarrow> SerialInterface \<Rightarrow> frame_arg \<Rightarrow> pyexn option \<times> SerialInterface" where
  "send_frame B si frame_state =
     (case frame_state of
        NotFrame v \<Rightarrow> (Some TypeError, si)
      | IsFrame fs \<Rightarrow>
          (let packet = frame_packet fs
           in case ser si of
                None \<Rightarrow> (Some RuntimeError, si)
              | Some port \<Rightarrow>
                  (case pack B packet of
                     Inl e \<Rightarrow> (Some e, si)
                   | Inr data \<Rightarrow>
                       (case ser_write port data of
                          (r, port') \<Rightarrow> (r, si\<lparr>ser := Some port'\<rparr>)))))"

definition SerialInterface_close :: "SerialInterface \<Rightarrow> SerialInterface" where
  "SerialInterface_close si =
     (case ser si of None \<Rightarrow> si | Some port \<Rightarrow> si\<lparr>ser := Some (port\<lparr>is_open := False\<rparr>)\<rparr>)"

section \<open>pipeline.py: InputPipeline\<close>

text \<open>
  Generators, modifiers and observer callbacks are objects of the caller.  Each is
  modelled by what a call does: it works on the state \<open>'w\<close> of everything outside the
  pipeline, and returns or raises.  A callback's return value is ignored by the pipeline.
\<close>

type_synonym 'w generator = "'w \<Rightarrow> (pyexn + FrameState) \<times> 'w"
type_synonym 'w modifier = "FrameState \<Rightarrow> 'w \<Rightarrow> (pyexn + FrameState) \<times> 'w"
type_synonym 'w callback = "FrameState \<Rightarrow> 'w \<Rightarrow> pyexn option \<times> 'w"

record 'w InputPipeline =
  generators :: "'w generator list"
  modifiers :: "'w modifier list"
  send_interval :: real
  last_send :: real
  serial :: "SerialInterface option"
  on_generate_callbacks :: "'w callback list"
  on_post_mod_callbacks :: "'w callback list"

definition InputPipeline_init ::
    "(string \<Rightarrow> pyexn + Serial) \<Rightarrow> string option \<Rightarrow> real \<Rightarrow> pyexn + 'w InputPipeline" where
  "InputPipeline_init open_port serial_port interval =
     (let empty = \<lparr>generators = [], modifiers = [], send_interval = interval, last_send = 0,
                    serial = None, on_generate_callbacks = [], on_post_mod_callbacks = []\<rparr>
      in if serial_port = None \<or> serial_port = Some [] then Inr empty
         else bind_exn (SerialInterface_init open_port serial_port) (\<lambda>si.
                Inr (empty\<lparr>serial := Some si\<rparr>)))"

definition add_generator :: "'w InputPipeline \<Rightarrow> 'w generator \<Rightarrow> 'w InputPipeline" where
  "add_generator p gen = p\<lparr>generators := generators p @ [gen]\<rparr>"

definition add_modifier :: "'w InputPipeline \<Rightarrow> 'w modifier \<Rightarrow> 'w InputPipeline" where
  "add_modifier p md = p\<lparr>modifiers := modifiers p @ [md]\<rparr>"

definition add_generate_callback :: "'w InputPipeline \<Rightarrow> 'w callback \<Rightarrow> 'w InputPipeline" where
  "add_generate_callback p cb = p\<lparr>on_generate_callbacks := on_generate_callbacks p @ [cb]\<rparr>"

definition add_post_mod_callback :: "'w InputPipeline \<Rightarrow> 'w callback \<Rightarrow> 'w InputPipeline" where
  "add_post_mod_callback p cb = p\<lparr>on_post_mod_callbacks := on_post_mod_callbacks p @ [cb]\<rparr>"

definition combine_generators ::
    "'w InputPipeline \<Rightarrow> 'w \<Rightarrow> (pyexn + FrameState option) \<times> 'w" where
  "combine_generators p w =
     (case generators p of
        [] \<Rightarrow> (Inr None, w)
      | g # _ \<Rightarrow> (case g w of (Inl e, w') \<Rightarrow> (Inl e, w') | (Inr state, w') \<Rightarrow> (Inr (Some state), w')))"

fun apply_modifiers :: "'w modifier list \<Rightarrow> FrameState \<Rightarrow> 'w \<Rightarrow> (pyexn + FrameState) \<times> 'w" where
  "apply_modifiers [] state w = (Inr state, w)"
| "apply_modifiers (md # mds) state w =
     (case md state w of
        (Inl e, w') \<Rightarrow> (Inl e, w')
      | (Inr state', w') \<Rightarrow> apply_modifiers mds state' w')"

text \<open>
  The loop \<open>for cb in list(callbacks): try: cb(state) except Exception: pass\<close>.  An
  exception that is not an \<open>Exception\<close> leaves the loop.
\<close>

fun run_callbacks :: "'w callback list \<Rightarrow> FrameState \<Rightarrow> 'w \<Rightarrow> pyexn option \<times> 'w" where
  "run_callbacks [] state w = (None, w)"
| "run_callbacks (cb # cbs) state w =
     (case cb state w of
        (None, w') \<Rightarrow> run_callbacks cbs state w'
      | (Some e, w') \<Rightarrow> if is_Exception e then run_callbacks cbs state w' else (Some e, w'))"

text \<open>
  The last step of \<open>update\<close>, with \<open>now\<close> the reading of \<open>time.time()\<close>: the rate gate,
  the send, and the new \<open>last_send\<close> once the send has returned.
\<close>

definition rate_gate_send ::
    "builtins \<Rightarrow> 'w InputPipeline \<Rightarrow> real \<Rightarrow> FrameState
       \<Rightarrow> (pyexn + FrameState option) \<times> 'w InputPipeline" where
  "rate_gate_send B p now state =
     (case serial p of
        None \<Rightarrow> (Inr (Some state), p)
      | Some si \<Rightarrow>
          if now - last_send p \<ge> send_interval p then
            (case send_frame B si (IsFrame state) of
               (Some e, si') \<Rightarrow> (Inl e, p\<lparr>serial := Some si'\<rparr>)
             | (None, si') \<Rightarrow> (Inr (Some state), p\<lparr>serial := Some si', last_send := now\<rparr>))
          else (Inr (Some state), p))"

text \<open>
  \<open>update\<close>, one tick: the value returned or the exception raised, the pipeline and the
  outside world afterwards.
\<close>

definition InputPipeline_update ::
    "builtins \<Rightarrow> 'w InputPipeline \<Rightarrow> real \<Rightarrow> 'w
       \<Rightarrow> (pyexn + FrameState option) \<times> 'w InputPipeline \<times> 'w" where
  "InputPipeline_update B p now w =
     (case combine_generators p w of
        (Inl e, w1) \<Rightarrow> (Inl e, p, w1)
      | (Inr None, w1) \<Rightarrow> (Inr None, p, w1)
      | (Inr (Some state), w1) \<Rightarrow>
          (case run_callbacks (on_generate_callbacks p) state w1 of
             (Some e, w2) \<Rightarrow> (Inl e, p, w2)
           | (None, w2) \<Rightarrow>
               (case apply_modifiers (modifiers p) state w2 of
                  (Inl e, w3) \<Rightarrow> (Inl e, p, w3)
                | (Inr state', w3) \<Rightarrow>
                    (case run_callbacks (on_post_mod_callbacks p) state' w3 of
                       (Some e, w4) \<Rightarrow> (Inl e, p, w4)
                     | (None, w4) \<Rightarrow>
                         (case rate_gate_send B p now state' of
                            (r, p') \<Rightarrow> (r, p', w4))))))"

text \<open>
  \<open>run_loop\<close> over the clock readings of its first iterations: it is still running when
  they are used up, has stopped on a \<open>KeyboardInterrupt\<close> (closing the port), or has
  ended with any other exception.
\<close>

datatype loop_outcome = Running | Stopped | Crashed pyexn

definition close_serial :: "'w InputPipeline \<Rightarrow> 'w InputPipeline" where
  "close_serial p =
     (case serial p of None \<Rightarrow> p | Some si \<Rightarrow> p\<lparr>serial := Some (SerialInterface_close si)\<rparr>)"

fun run_loop ::
    "builtins \<Rightarrow> 'w InputPipeline \<Rightarrow> 'w \<Rightarrow> real list \<Rightarrow> loop_outcome \<times> 'w InputPipeline \<times> 'w" where
  "run_loop B p w [] = (Running, p, w)"
| "run_loop B p w (now # nows) =
     (case InputPipeline_update B p now w of
        (Inl e, p', w') \<Rightarrow>
          if e = KeyboardInterrupt then (Stopped, close_serial p', w') else (Crashed e, p', w')
      | (Inr r, p', w') \<Rightarrow> run_loop B p' w' nows)"

text \<open>What the pipeline's port has been sent so far.\<close>

definition transmitted :: "'w InputPipeline \<Rightarrow> byte list list" where
  "transmitted p =
     (case serial p of
        None \<Rightarrow> []
      | Some si \<Rightarrow> (case ser si of None \<Rightarrow> [] | Some port \<Rightarrow> written_data port))"


section \<open>Example data\<close>

text \<open>
  An interpreter for the examples: its parsers reject every string (as Python rejects
  \<open>"bad"\<close>), and its binary32 table knows \<open>0.0\<close>, \<open>1.0\<close> and \<open>-1.0\<close>.
\<close>

definition demo_builtins :: builtins where
  "demo_builtins =
     \<lparr>str_float = (\<lambda>s. None), str_int = (\<lambda>s. None),
      f32_bits = (\<lambda>x. if x = Fin 1 then 0x3F800000 else if x = Fin (- 1) then 0xBF800000 else 0)\<rparr>"

text \<open>
  The malformed sample \<open>{"buttons": [True, "x", None], "axes": [2.0, -2.0, "bad", 0, 0, 0],
  "dpad": [5, -5]}\<close>.
\<close>

definition malformed_sample :: pyval where
  "malformed_sample = PDict
     [(PStr ''buttons'', PList [PBool True, PStr ''x'', PNone]),
      (PStr ''axes'', PList [PFloat (Fin 2), PFloat (Fin (- 2)), PStr ''bad'', PInt 0, PInt 0, PInt 0]),
      (PStr ''dpad'', PList [PInt 5, PInt (- 5)])]"

text \<open>A frame with every button down, every axis at its upper end and the hat up-right.\<close>

definition full_frame :: FrameState where
  "full_frame = \<lparr>buttons = replicate 10 True, axes = replicate 6 (Fin 1), dpad = (1, 1)\<rparr>"

text \<open>An anti-recoil modifier whose strength attribute was set to \<open>-0.3\<close>.\<close>

definition reversed_recoil :: BasicAntiRecoilModifier where
  "reversed_recoil =
     \<lparr>recoil_strength = round64 (- (3 / 10)), trigger_threshold = round64 (1 / 10)\<rparr>"

text \<open>The neutral frame with the right trigger fully pulled.\<close>

definition fire_frame :: FrameState where
  "fire_frame =
     \<lparr>buttons = replicate 10 False, axes = [Fin 0, Fin 0, Fin 0, Fin 0, Fin 0, Fin 1],
      dpad = (0, 0)\<rparr>"

text \<open>
  Sticks at a deadzone boundary of \<open>0.25\<close>, just inside and just outside it; the right
  trigger is released.
\<close>

definition boundary_frame :: FrameState where
  "boundary_frame =
     \<lparr>buttons = replicate 10 False,
      axes = [Fin (1 / 4), Fin (- (3 / 16)), Fin (- (1 / 4)), Fin (5 / 16), Fin (1 / 8),
              Fin (- 1)],
      dpad = (0, 1)\<rparr>"

text \<open>
  The right stick at \<open>0.7000000000000001\<close> (the binary64 value after \<open>0.7\<close>) with the right
  trigger fully pulled.
\<close>

definition edge_frame :: FrameState where
  "edge_frame =
     \<lparr>buttons = replicate 10 False,
      axes = [Fin 0, Fin 0, Fin 0, Fin (6305039478318695 / 2 ^ 53), Fin 0, Fin 1],
      dpad = (0, 0)\<rparr>"

text \<open>
  An object whose truth test raises \<open>ValueError\<close>, as that of an array with several
  elements does, and which \<open>float\<close> and \<open>int\<close> reject; and a sample that has it as a
  button.
\<close>

definition untestable_object :: pyval where
  "untestable_object = PObj (Inl ValueError) (Inl TypeError) (Inl TypeError)"

definition untestable_sample :: pyval where
  "untestable_sample = PDict [(PStr ''buttons'', PList [PBool True, untestable_object])]"

text \<open>A machine on which no serial device can be opened, and a port that was just opened.\<close>

definition no_device :: "string \<Rightarrow> pyexn + Serial" where
  "no_device name = Inl SerialException"

definition fresh_port :: Serial where
  "fresh_port = \<lparr>written_data = [], is_open = True, fault = None\<rparr>"

text \<open>
  A small installation whose outside world is a log of names: an observer that logs and
  returns, one that logs and then raises an \<open>Exception\<close>, one that logs and then raises
  \<open>KeyboardInterrupt\<close>, a modifier that logs and passes the frame on, a generator that
  delivers the neutral frame and one that raises.
\<close>

definition logging_callback :: "string \<Rightarrow> string list callback" where
  "logging_callback name state w = (None, w @ [name])"

definition failing_callback :: "string \<Rightarrow> string list callback" where
  "failing_callback name state w = (Some (UserException name), w @ [name])"


definition logging_modifier :: "string \<Rightarrow> string list modifier" where
  "logging_modifier name state w = (Inr state, w @ [name])"

definition steady_generator :: "string list generator" where
  "steady_generator w = (Inr default_state, w @ [''generate''])"

definition failing_generator :: "pyexn \<Rightarrow> string list generator" where
  "failing_generator e w = (Inl e, w @ [''generate''])"

definition demo_pipeline :: "string list InputPipeline" where
  "demo_pipeline =
     \<lparr>generators = [steady_generator],
      modifiers = [logging_modifier ''modifier''],
      send_interval = 5 / 1000,
      last_send = 0,
      serial = Some \<lparr>ser = Some fresh_port\<rparr>,
      on_generate_callbacks = [failing_callback ''broken'', logging_callback ''viewer''],
      on_post_mod_callbacks = [failing_callback ''broken too'', logging_callback ''viewer too'']\<rparr>"

definition faulty_pipeline :: "string list InputPipeline" where
  "faulty_pipeline = demo_pipeline\<lparr>generators := [failing_generator (UserException ''device lost'')]\<rparr>"


text \<open>The 29 bytes of the neutral frame under \<open>demo_builtins\<close>.\<close>

definition neutral_bytes :: "byte list" where
  "neutral_bytes = 255 # 0 # 0 # replicate 24 0 @ [4, 4]"

text \<open>Two ticks of \<open>demo_pipeline\<close>, the second two milliseconds after the first.\<close>

definition first_tick ::
    "(pyexn + FrameState option) \<times> string list InputPipeline \<times> string list" where
  "first_tick = InputPipeline_update demo_builtins demo_pipeline 1 []"

definition second_tick ::
    "(pyexn + FrameState option) \<times> string list InputPipeline \<times> string list" where
  "second_tick =
     InputPipeline_update demo_builtins (fst (snd first_tick)) (1 + 2 / 1000) (snd (snd first_tick))"

section \<open>Properties\<close>

subsection \<open>Sequencing\<close>

lemma bind_exn_Inr: "bind_exn r k = Inr y \<longleftrightarrow> (\<exists>v. r = Inr v \<and> k v = Inr y)"
  by (cases r) (simp_all add: bind_exn_def)

lemma bind_exn_simps [simp]: "bind_exn (Inr v) k = k v" "bind_exn (Inl e) k = Inl e"
  by (simp_all add: bind_exn_def)

lemma those_exn_map_Inr:
  "those_exn (map f xs) = Inr vs \<Longrightarrow>
     length vs = length xs \<and> (\<forall>i<length xs. f (xs ! i) = Inr (vs ! i))"
proof (induction xs arbitrary: vs)
  case Nil
  then show ?case by simp
next
  case (Cons x xs)
  then obtain v vs' where v: "f x = Inr v" and vs': "those_exn (map f xs) = Inr vs'"
    and e: "vs = v # vs'"
    by (auto simp: bind_exn_Inr)
  from Cons.IH[OF vs'] v e show ?case
    by (auto simp: nth_Cons split: nat.splits)
qed

lemma those_exn_map_total:
  "\<forall>x\<in>set xs. \<exists>v. f x = Inr v \<Longrightarrow> \<exists>vs. those_exn (map f xs) = Inr vs"
  by (induction xs) auto

lemma those_exn_map_all:
  "\<forall>x\<in>set xs. f x = Inr (g x) \<Longrightarrow> those_exn (map f xs) = Inr (map g xs)"
  by (induction xs) auto

lemma those_exn_map_set:
  assumes "those_exn (map f xs) = Inr vs" "v \<in> set vs"
  shows "\<exists>x\<in>set xs. f x = Inr v"
proof -
  from those_exn_map_Inr[OF assms(1)]
  have l: "length vs = length xs" and n: "\<forall>i<length xs. f (xs ! i) = Inr (vs ! i)" by auto
  from assms(2) obtain i where "i < length vs" "vs ! i = v" by (auto simp: in_set_conv_nth)
  then show ?thesis using l n by (metis nth_mem)
qed

subsection \<open>Rounding\<close>

lemma bitlen_one: "bitlen 1 = 1"
  using compute_bitlen[of 1] by simp

lemma pow2_pos: "pow2 e > 0"
  by (simp add: pow2_def)

lemma round_half_even_nonneg: "0 \<le> y \<Longrightarrow> 0 \<le> round_half_even y"
  by (simp add: round_half_even_def round_from_def half_even_def)

lemma round_half_even_le:
  assumes "y \<le> of_int N"
  shows "round_half_even y \<le> N"
proof -
  have f: "\<lfloor>y\<rfloor> \<le> N" using assms by (simp add: floor_le_iff)
  show ?thesis
  proof (cases "\<lfloor>y\<rfloor> = N")
    case True
    then have "y = of_int N" using assms by (metis of_int_floor_le antisym)
    then show ?thesis by (simp add: round_half_even_def round_from_def half_even_def)
  next
    case False
    then have "\<lfloor>y\<rfloor> + 1 \<le> N" using f by simp
    then show ?thesis
      using f by (simp add: round_half_even_def round_from_def half_even_def)
  qed
qed

lemma round64_neg: "round64 (- x) = pf_neg (round64 x)"
  by (simp add: round64_def quantize_def signed_or_inf_def)

lemma round64_nonneg:
  assumes "0 \<le> x"
  shows "round64 x = PosInf \<or> (\<exists>r\<ge>0. round64 x = Fin r)"
proof (cases "x = 0")
  case True
  then show ?thesis by (simp add: round64_def)
next
  case False
  then have "x > 0" using assms by simp
  then show ?thesis
    using pow2_pos[of "max (ilog2 \<bar>x\<bar>) (- 1022) - 52"]
    by (simp add: round64_def quantize_def signed_or_inf_def round_half_even_nonneg)
qed

lemma ilog2_le_zero:
  assumes "0 < a" "a \<le> 1"
  shows "ilog2 a \<le> 0"
proof (cases "a \<ge> 1")
  case True
  then have "a = 1" using assms by simp
  then show ?thesis by (simp add: ilog2_def bitlen_one)
next
  case False
  have "1 \<le> 1 / a" using assms by simp
  then have "1 \<le> \<lfloor>1 / a\<rfloor>" by (simp add: le_floor_iff)
  then have "0 < bitlen \<lfloor>1 / a\<rfloor>"
    using bitlen_eq_zero_iff[of "\<lfloor>1 / a\<rfloor>"] bitlen_nonneg[of "\<lfloor>1 / a\<rfloor>"] by linarith
  then show ?thesis using False by (simp add: ilog2_def ilog2_small_def)
qed

lemma round64_le_one:
  assumes "x \<le> 1"
  shows "pf_le (round64 x) (Fin 1)"
proof (cases "x \<le> 0")
  case True
  then have "0 \<le> - x" by simp
  from round64_nonneg[OF this] show ?thesis
    unfolding round64_neg
    by (cases "round64 x") auto
next
  case False
  then have pos: "0 < x" by simp
  define e where "e = max (ilog2 \<bar>x\<bar>) (- 1022)"
  have e: "e \<le> 0" using ilog2_le_zero[of x] pos assms by (simp add: e_def)
  define n where "n = nat (52 - e)"
  have q: "pow2 (e - 52) = 1 / 2 ^ n" using e by (simp add: pow2_def n_def)
  define m where "m = round_half_even (x / pow2 (e - 52))"
  have "x / pow2 (e - 52) = x * 2 ^ n" by (simp add: q)
  also have "\<dots> \<le> 2 ^ n" using assms by simp
  finally have "x / pow2 (e - 52) \<le> of_int (2 ^ n)" by simp
  then have mle: "m \<le> 2 ^ n" unfolding m_def by (rule round_half_even_le)
  have mge: "0 \<le> m" unfolding m_def
    using pos pow2_pos[of "e - 52"] by (intro round_half_even_nonneg) simp
  define r :: real where "r = of_int m * pow2 (e - 52)"
  have "r = of_int m / 2 ^ n" by (simp add: r_def q)
  moreover have "(of_int m :: real) \<le> 2 ^ n" using mle by (metis of_int_le_iff of_int_numeral of_int_power)
  ultimately have r1: "r \<le> 1" by (simp add: divide_le_eq)
  have r0: "0 \<le> r" using mge pow2_pos[of "e - 52"] by (simp add: r_def)
  have "\<lfloor>r\<rfloor> = 0 \<or> \<lfloor>r\<rfloor> = 1" using r0 r1 by (smt (verit) floor_le_iff floor_less_iff le_floor_iff of_int_0 of_int_1)
  then have "bitlen \<lfloor>r\<rfloor> \<le> 1024" by (auto simp: bitlen_one)
  then have "round64 x = Fin r"
    using pos by (simp add: round64_def quantize_def signed_or_inf_def r_def m_def e_def)
  then show ?thesis using r1 by simp
qed

lemma round64_ge_minus_one:
  assumes "- 1 \<le> x"
  shows "pf_le (Fin (- 1)) (round64 x)"
proof -
  have "pf_le (round64 (- x)) (Fin 1)" using assms by (intro round64_le_one) simp
  then show ?thesis unfolding round64_neg by (cases "round64 x") auto
qed

lemma round64_not_NaN: "round64 x \<noteq> NaN"
  by (simp add: round64_def quantize_def signed_or_inf_def)

text \<open>The exponent that \<open>ilog2\<close> computes is the right one.\<close>

lemma pow2_add_one: "pow2 (e + 1) = 2 * pow2 e"
proof (cases "e \<ge> 0")
  case True
  then show ?thesis by (simp add: pow2_def nat_add_distrib)
next
  case False
  then have "nat (- e) = Suc (nat (- (e + 1)))" by simp
  then show ?thesis using False by (simp add: pow2_def)
qed

lemma ilog2_bounds:
  assumes "0 < a"
  shows "pow2 (ilog2 a) \<le> a \<and> a < pow2 (ilog2 a + 1)"
proof (cases "a \<ge> 1")
  case True
  define n where "n = \<lfloor>a\<rfloor>"
  have n: "1 \<le> n" using True by (simp add: n_def le_floor_iff)
  then have "0 < n" by simp
  from bitlen_bounds[OF this]
  have lo: "2 ^ nat (bitlen n - 1) \<le> n" and hi: "n < 2 ^ nat (bitlen n)" by auto
  have b: "1 \<le> bitlen n"
    using bitlen_eq_zero_iff[of n] bitlen_nonneg[of n] n by linarith
  have e: "ilog2 a = bitlen n - 1" using True by (simp add: ilog2_def n_def)
  have "real_of_int (2 ^ nat (bitlen n - 1)) \<le> real_of_int n" using lo by linarith
  also have "\<dots> \<le> a" by (simp add: n_def)
  finally have l: "pow2 (ilog2 a) \<le> a" using b by (simp add: e pow2_def)
  have "n + 1 \<le> 2 ^ nat (bitlen n)" using hi by simp
  then have "real_of_int (n + 1) \<le> real_of_int (2 ^ nat (bitlen n))" by linarith
  moreover have "a < real_of_int (n + 1)" by (simp add: n_def)
  ultimately have "a < 2 ^ nat (bitlen n)" by simp
  then have h: "a < pow2 (ilog2 a + 1)" using b by (simp add: e pow2_def)
  show ?thesis using l h by simp
next
  case False
  then have a1: "a < 1" by simp
  define n where "n = \<lfloor>1 / a\<rfloor>"
  have "1 \<le> 1 / a" using assms a1 by simp
  then have n: "1 \<le> n" by (simp add: n_def le_floor_iff)
  then have "0 < n" by simp
  from bitlen_bounds[OF this]
  have lo: "2 ^ nat (bitlen n - 1) \<le> n" and hi: "n < 2 ^ nat (bitlen n)" by auto
  have b: "1 \<le> bitlen n"
    using bitlen_eq_zero_iff[of n] bitlen_nonneg[of n] n by linarith
  define k where "k = nat (bitlen n - 1)"
  have kk: "bitlen n - 1 = int k" "nat (bitlen n) = Suc k" using b by (simp_all add: k_def)
  have "real_of_int (2 ^ k) \<le> real_of_int n" using lo unfolding k_def by linarith
  also have "\<dots> \<le> 1 / a" by (simp add: n_def)
  finally have up: "a * 2 ^ k \<le> 1" using assms by (simp add: field_simps)
  have "n + 1 \<le> 2 ^ Suc k" using hi kk by simp
  then have "real_of_int (n + 1) \<le> real_of_int (2 ^ Suc k)" by linarith
  moreover have "1 / a < real_of_int (n + 1)" by (simp add: n_def)
  ultimately have "1 / a < 2 ^ Suc k" by simp
  then have dn: "1 < a * 2 ^ Suc k" using assms by (simp add: field_simps)
  show ?thesis
  proof (cases "a * 2 ^ k = 1")
    case True
    then have e: "ilog2 a = - int k" using False by (simp add: ilog2_def ilog2_small_def n_def[symmetric] kk)
    have ak: "a = 1 / 2 ^ k" using True by (simp add: field_simps)
    have "k \<noteq> 0" using True a1 by (cases k) auto
    moreover have "(1::real) / 2 ^ k < 2 / 2 ^ k" by (simp add: divide_strict_right_mono)
    ultimately show ?thesis unfolding pow2_add_one e using ak by (simp add: pow2_def)
  next
    case neq: False
    then have e: "ilog2 a = - int k - 1" using False by (simp add: ilog2_def ilog2_small_def n_def[symmetric] kk)
    have e1: "ilog2 a + 1 = - int k" using e by simp
    have "pow2 (- int k - 1) = 1 / 2 ^ Suc k"
      by (simp add: pow2_def nat_add_distrib)
    moreover have "1 / 2 ^ Suc k < a" using dn by (simp add: field_simps)
    moreover have "a < 1 / 2 ^ k" using up neq by (simp add: field_simps)
    moreover have "pow2 (- int k) = 1 / 2 ^ k" by (auto simp: pow2_def)
    ultimately show ?thesis unfolding e1 unfolding e by simp
  qed
qed

text \<open>
  Some roundings: the literal \<open>0.3\<close>, a sum that is absorbed, and two ties, each going
  to the even neighbour.
\<close>

lemma round64_examples:
  "round64 (3 / 10) = Fin (5404319552844595 / 2 ^ 54)"
  "round64 (1 + 1 / 2 ^ 60) = Fin 1"
  "round64 (1 + 1 / 2 ^ 53) = Fin 1"
  "round64 (1 + 3 / 2 ^ 53) = Fin (1 + 1 / 2 ^ 51)"
  by code_simp+

subsection \<open>Normalization\<close>

lemma clamp_ok: "axis_ok (py_max (Fin (- 1)) (py_min (Fin 1) v))"
  by (cases v) (auto simp: axis_ok_def py_max_def py_min_def pf_gt_def)

lemma axis_ok_zero: "axis_ok (Fin 0)"
  by (simp add: axis_ok_def)

lemma to_float_clamped_ok: "to_float_clamped B x = Inr v \<Longrightarrow> axis_ok v"
  by (auto simp: to_float_clamped_def clamp_ok axis_ok_zero split: sum.splits if_splits)

lemma dpad_try_ok: "dpad_try B d = Inr hv \<Longrightarrow> hat_ok (fst hv) \<and> hat_ok (snd hv)"
  by (auto simp: dpad_try_def hat_ok_def split: sum.splits)

lemma pad_ok:
  assumes "list_all P xs" "P z"
  shows "list_all P (take n (xs @ replicate m z))"
proof -
  have "list_all P (xs @ replicate m z)"
    using assms by (auto simp: list_all_iff)
  then show ?thesis
    unfolding list_all_iff by (meson in_set_takeD)
qed

lemma default_axes_ok: "list_all axis_ok (replicate 6 (Fin 0))"
  by (simp add: list_all_iff axis_ok_zero)

lemma default_state_ok: "frame_ok default_state"
  by (simp add: frame_ok_def default_state_def hat_ok_def default_axes_ok del: replicate.simps)

lemma normalize_values_non_dict:
  "\<not> (\<exists>kvs. obj = PDict kvs) \<Longrightarrow> normalize_values B obj = Inr default_state"
  by (cases obj) (simp_all add: normalize_values_def default_state_def)

text \<open>The three steps of \<open>_normalize_values\<close> on a dict, each on the result of the one before.\<close>

lemma buttons_step_ok:
  assumes "frame_ok out"
    and "(case seq_items v of
            Some bs \<Rightarrow> bind_exn (those_exn (map py_bool bs)) (\<lambda>b.
                Inr (out\<lparr>buttons := take 10 (b @ replicate 10 False)\<rparr>))
          | None \<Rightarrow> Inr out) = Inr out1"
  shows "frame_ok out1"
  using assms by (auto simp: frame_ok_def bind_exn_Inr split: option.splits)

lemma axes_step_ok:
  assumes "frame_ok out"
    and "(case seq_items v of
            Some as \<Rightarrow> bind_exn (those_exn (map (to_float_clamped B) as)) (\<lambda>a.
                Inr (out\<lparr>axes := take 6 (a @ replicate 6 (Fin 0))\<rparr>))
          | None \<Rightarrow> Inr out) = Inr out2"
  shows "frame_ok out2"
proof (cases "seq_items v")
  case None
  then show ?thesis using assms by simp
next
  case (Some as)
  then obtain a where a: "those_exn (map (to_float_clamped B) as) = Inr a"
    and o: "out2 = out\<lparr>axes := take 6 (a @ replicate 6 (Fin 0))\<rparr>"
    using assms(2) by (auto simp: bind_exn_Inr)
  have "list_all axis_ok a"
    unfolding list_all_iff using those_exn_map_set[OF a] to_float_clamped_ok by blast
  then have "list_all axis_ok (take 6 (a @ replicate 6 (Fin 0)))"
    by (rule pad_ok) (rule axis_ok_zero)
  moreover have "length (take 6 (a @ replicate 6 (Fin 0))) = 6" by simp
  ultimately show ?thesis using assms(1) unfolding o frame_ok_def by simp
qed

lemma dpad_step_ok:
  assumes "frame_ok out"
    and "(case seq_items v of
            Some d \<Rightarrow>
              (if length d \<ge> 2
               then (case dpad_try B d of
                       Inr hv \<Rightarrow> Inr (out\<lparr>dpad := hv\<rparr>)
                     | Inl e \<Rightarrow> if is_Exception e then Inr out else Inl e)
               else Inr out)
          | None \<Rightarrow> Inr out) = Inr out3"
  shows "frame_ok out3"
  using assms
  by (auto simp: frame_ok_def dest: dpad_try_ok split: option.splits sum.splits if_splits)

lemma normalize_values_ok:
  assumes "normalize_values B obj = Inr s"
  shows "frame_ok s"
proof (cases "\<exists>kvs. obj = PDict kvs")
  case False
  then show ?thesis using assms by (simp add: normalize_values_non_dict default_state_ok)
next
  case True
  then obtain kvs where obj: "obj = PDict kvs" by blast
  have d: "\<lparr>buttons = replicate 10 False, axes = replicate 6 (Fin 0), dpad = (0, 0)\<rparr> = default_state"
    by (simp add: default_state_def)
  from assms obtain out1 out2 where
    "(case seq_items (dict_get kvs ''buttons'') of
            Some bs \<Rightarrow> bind_exn (those_exn (map py_bool bs)) (\<lambda>b.
                Inr (default_state\<lparr>buttons := take 10 (b @ replicate 10 False)\<rparr>))
          | None \<Rightarrow> Inr default_state) = Inr out1"
    "(case seq_items (dict_get kvs ''axes'') of
            Some as \<Rightarrow> bind_exn (those_exn (map (to_float_clamped B) as)) (\<lambda>a.
                Inr (out1\<lparr>axes := take 6 (a @ replicate 6 (Fin 0))\<rparr>))
          | None \<Rightarrow> Inr out1) = Inr out2"
    "(case seq_items (dict_get kvs ''dpad'') of
            Some d \<Rightarrow>
              (if length d \<ge> 2
               then (case dpad_try B d of
                       Inr hv \<Rightarrow> Inr (out2\<lparr>dpad := hv\<rparr>)
                     | Inl e \<Rightarrow> if is_Exception e then Inr out2 else Inl e)
               else Inr out2)
          | None \<Rightarrow> Inr out2) = Inr s"
    unfolding obj normalize_values_def Let_def d pyval.case bind_exn_Inr by blast
  then show ?thesis
    using buttons_step_ok[OF default_state_ok] axes_step_ok dpad_step_ok by blast
qed

lemma from_dict_result_ok:
  assumes "from_dict B raw = Inr s"
  shows "frame_ok s"
proof -
  from assms obtain data where "normalize_values B raw = Inr data"
    and "s = \<lparr>buttons = buttons data, axes = axes data, dpad = dpad data\<rparr>"
    by (auto simp: from_dict_def bind_exn_Inr)
  then show ?thesis using normalize_values_ok[of B raw data] by (simp add: frame_ok_def)
qed

text \<open>
  C1.  The claim is that \<open>from_dict\<close> returns a frame satisfying the invariants for every
  raw value and never raises.  The conversions of \<open>axes\<close> and \<open>dpad\<close> are guarded by a
  \<open>try\<close>, the truth tests of the \<open>buttons\<close> comprehension are not: on the sample whose
  second button is an object with a truth test that raises \<open>ValueError\<close>, \<open>from_dict\<close>
  raises that \<open>ValueError\<close> and returns no frame.
\<close>

theorem from_dict_truth_test_raises: "from_dict B untestable_sample = Inl ValueError"
  by (simp add: from_dict_def normalize_values_def untestable_sample_def untestable_object_def
      dict_get_def)

text \<open>
  What does hold: a frame that \<open>from_dict\<close> returns satisfies the invariants, and it
  returns one whenever every truth test of a button returns and no conversion of an axis
  or dpad entry raises something that is not an \<open>Exception\<close>; plain Python values are
  such entries.
\<close>

lemma from_dict_malformed_sample:
  "from_dict demo_builtins malformed_sample =
     Inr \<lparr>buttons = [True, True, False, False, False, False, False, False, False, False],
          axes = [Fin 1, Fin (- 1), Fin 0, Fin 0, Fin 0, Fin 0], dpad = (1, - 1)\<rparr>"
  by code_simp

lemma to_float_clamped_returns:
  "\<forall>e. py_float B x = Inl e \<longrightarrow> is_Exception e \<Longrightarrow> \<exists>v. to_float_clamped B x = Inr v"
  by (auto simp: to_float_clamped_def split: sum.splits)

lemma dpad_try_raises:
  assumes "dpad_try B d = Inl e" "\<forall>x\<in>set d. \<forall>e. py_int B x = Inl e \<longrightarrow> is_Exception e"
  shows "is_Exception e"
  using assms
  by (auto simp: dpad_try_def seq_get_def split: sum.splits if_splits)

lemma from_dict_returns:
  assumes b: "\<forall>x\<in>set (field_items raw ''buttons''). \<exists>t. py_bool x = Inr t"
      and a: "\<forall>x\<in>set (field_items raw ''axes''). \<forall>e. py_float B x = Inl e \<longrightarrow> is_Exception e"
      and d: "\<forall>x\<in>set (field_items raw ''dpad''). \<forall>e. py_int B x = Inl e \<longrightarrow> is_Exception e"
  shows "\<exists>s. from_dict B raw = Inr s \<and> frame_ok s"
proof -
  have "\<exists>s. normalize_values B raw = Inr s"
  proof (cases "\<exists>kvs. raw = PDict kvs")
    case False
    then show ?thesis by (simp add: normalize_values_non_dict)
  next
    case True
    then obtain kvs where raw: "raw = PDict kvs" by blast
    have b': "seq_items (dict_get kvs ''buttons'') = Some bs \<Longrightarrow>
        \<exists>v. those_exn (map py_bool bs) = Inr v" for bs
      using b by (intro those_exn_map_total) (simp add: raw field_items_def)
    have a': "seq_items (dict_get kvs ''axes'') = Some as \<Longrightarrow>
        \<exists>v. those_exn (map (to_float_clamped B) as) = Inr v" for as
      using a by (intro those_exn_map_total ballI to_float_clamped_returns)
        (simp add: raw field_items_def)
    have d': "seq_items (dict_get kvs ''dpad'') = Some ds \<Longrightarrow> dpad_try B ds = Inl e
        \<Longrightarrow> is_Exception e" for ds e
      using d dpad_try_raises[of B ds e] by (simp add: raw field_items_def)
    show ?thesis
      unfolding raw normalize_values_def Let_def pyval.case
      using b' a' d'
      by (fastforce split: option.splits sum.splits)
  qed
  then obtain data where "normalize_values B raw = Inr data" by blast
  then have "from_dict B raw = Inr \<lparr>buttons = buttons data, axes = axes data, dpad = dpad data\<rparr>"
    by (simp add: from_dict_def)
  then show ?thesis using from_dict_result_ok by blast
qed

lemma plain_conversions:
  assumes "is_plain x"
  shows "\<exists>t. py_bool x = Inr t" "py_float B x = Inl e \<Longrightarrow> is_Exception e"
    "py_int B x = Inl e' \<Longrightarrow> is_Exception e'"
proof -
  show "\<exists>t. py_bool x = Inr t" using assms by (cases x) auto
  show "py_float B x = Inl e \<Longrightarrow> is_Exception e"
    using assms by (cases x) (auto split: option.splits pyfloat.splits)
  show "py_int B x = Inl e' \<Longrightarrow> is_Exception e'"
    using assms by (cases "(B, x)" rule: py_int.cases) (auto split: option.splits)
qed

lemma from_dict_plain:
  assumes "list_all is_plain (field_items raw ''buttons'')"
      and "list_all is_plain (field_items raw ''axes'')"
      and "list_all is_plain (field_items raw ''dpad'')"
  shows "\<exists>s. from_dict B raw = Inr s \<and> frame_ok s"
  using assms plain_conversions by (intro from_dict_returns) (auto simp: list_all_iff)

lemma clamp_id: "axis_ok a \<Longrightarrow> to_float_clamped B (PFloat a) = Inr a"
  by (cases a) (auto simp: axis_ok_def to_float_clamped_def py_max_def py_min_def pf_gt_def)

text \<open>
  C3.  For every frame \<open>s\<close> that satisfies the invariants, normalizing its plain-form
  export returns \<open>s\<close>: \<open>from_dict (to_dict s) = s\<close>.
\<close>

theorem from_dict_to_dict:
  assumes "frame_ok s"
  shows "from_dict B (to_dict s) = Inr s"
proof -
  have "those_exn (map py_bool (map PBool (buttons s))) = Inr (map id (buttons s))"
    unfolding map_map by (rule those_exn_map_all) simp
  then have b: "those_exn (map (py_bool \<circ> PBool) (buttons s)) = Inr (buttons s)" by simp
  have "those_exn (map (to_float_clamped B) (map PFloat (axes s))) = Inr (map id (axes s))"
    unfolding map_map using assms
    by (intro those_exn_map_all) (simp add: frame_ok_def list_all_iff clamp_id)
  then have a: "those_exn (map (to_float_clamped B \<circ> PFloat) (axes s)) = Inr (axes s)" by simp
  have l: "take 10 (buttons s @ replicate 10 False) = buttons s"
    "take 6 (axes s @ replicate 6 (Fin 0)) = axes s"
    using assms by (simp_all add: frame_ok_def)
  have "max (- 1) (min 1 (fst (dpad s))) = fst (dpad s)"
    "max (- 1) (min 1 (snd (dpad s))) = snd (dpad s)"
    using assms by (auto simp: frame_ok_def hat_ok_def)
  then have d: "dpad_try B [PInt (fst (dpad s)), PInt (snd (dpad s))] = Inr (dpad s)"
    by (simp add: dpad_try_def seq_get_def)
  show ?thesis
    by (simp add: from_dict_def to_dict_def normalize_values_def dict_get_def Let_def b a l d
        del: take_append)
qed

theorem from_dict_to_dict_witness:
  "frame_ok full_frame \<and> from_dict demo_builtins (to_dict full_frame) = Inr full_frame"
proof -
  have h: "frame_ok full_frame" by code_simp
  show ?thesis using h from_dict_to_dict[OF h, of demo_builtins] by simp
qed

subsection \<open>The wire encoder\<close>

lemma pack_H_Inr: "pack_H v = Inr h \<Longrightarrow> length h = 2"
  by (auto simp: pack_H_def split: if_splits)

lemma pack_B_Inr: "pack_B v = Inr b \<longleftrightarrow> (0 \<le> v \<and> v \<le> 255 \<and> b = [word_of_int v])"
  by (auto simp: pack_B_def)

lemma pack_f_Inr: "pack_f B x = Inr b \<Longrightarrow> length b = 4"
  by (auto simp: pack_f_def le32_def split: pyfloat.splits if_splits)

lemma floats_length:
  assumes "those_exn (map (pack_f B) ax) = Inr fs" "length ax = 6"
  shows "length (concat fs) = 24"
proof -
  from those_exn_map_Inr[OF assms(1)] assms(2)
  have l: "length fs = 6" and e: "\<forall>i<6. pack_f B (ax ! i) = Inr (fs ! i)" by auto
  have "\<forall>b\<in>set fs. length b = 4"
    using l e pack_f_Inr by (metis in_set_conv_nth)
  then have "map length fs = replicate 6 4"
    using l by (metis map_replicate_const map_eq_conv)
  then show ?thesis by (simp add: length_concat sum_list_replicate)
qed

lemma checksum_range: "0 \<le> (s::int) AND 255 \<and> s AND 255 \<le> 255"
  by simp

lemma and_255_mod: "(s::int) AND 255 = s mod 256"
proof -
  have "(255::int) = mask 8" by (simp add: mask_eq_exp_minus_1)
  then have "s AND 255 = take_bit 8 s" by (simp only: take_bit_eq_mask)
  then show ?thesis by (simp add: take_bit_eq_mod)
qed

lemma pack_layout:
  assumes "pack B p = Inr bs"
  shows "length bs = 29 \<and> bs ! 0 = 255
       \<and> uint (bs ! 28) = sum_list (map uint (take 27 (drop 1 bs))) mod 256"
proof -
  let ?ax = "take 6 (pk_axes p @ replicate 6 (Fin 0))"
  from assms obtain h fs d where h: "pack_H (pk_buttons p) = Inr h"
    and fs: "those_exn (map (pack_f B) ?ax) = Inr fs"
    and d: "pack_B (dpad_code p) = Inr d"
    and bs: "bs = [255] @ (h @ concat fs @ d)
               @ [word_of_int (sum_list (map uint (h @ concat fs @ d)) AND 255)]"
    by (auto simp: pack_def Let_def bind_exn_Inr pack_B_Inr HEADER_def simp del: take_append)
  have lh: "length h = 2" using h by (rule pack_H_Inr)
  have lf: "length (concat fs) = 24" using fs by (rule floats_length) simp
  have ld: "length d = 1" using d by (auto simp: pack_B_Inr)
  define payload where "payload = h @ concat fs @ d"
  define c :: byte where "c = word_of_int (sum_list (map uint payload) AND 255)"
  have lp: "length payload = 27" using lh lf ld by (simp add: payload_def)
  have bs': "bs = 255 # payload @ [c]"
    using bs by (simp add: payload_def c_def)
  have len: "length bs = 29" using lp by (simp add: bs')
  have b0: "bs ! 0 = 255" by (simp add: bs')
  have pl: "take 27 (drop 1 bs) = payload" using lp by (simp add: bs')
  have "bs ! 28 = c"
    using lp by (simp add: bs' nth_append)
  then have "uint (bs ! 28) = sum_list (map uint payload) AND 255"
    using checksum_range[of "sum_list (map uint payload)"]
    by (simp add: c_def uint_word_of_int take_bit_eq_mod and_255_mod)
  then show ?thesis using len b0 pl by (simp add: and_255_mod)
qed

lemma bitmask_range: "0 \<le> buttons_to_bitmask bs \<and> buttons_to_bitmask bs \<le> 65535"
  by (simp add: buttons_to_bitmask_def)

lemma pack_f_axis_ok: "axis_ok a \<Longrightarrow> \<exists>b. pack_f B a = Inr b"
  by (cases a) (auto simp: axis_ok_def pack_f_def)

lemma dpad_encode_range:
  "hat_ok (fst d) \<Longrightarrow> hat_ok (snd d) \<Longrightarrow> 0 \<le> dpad_encode d \<and> dpad_encode d \<le> 8"
  by (cases d) (auto simp: dpad_encode_def hat_ok_def)

lemma pack_frame_ok:
  assumes "frame_ok fs"
  shows "\<exists>bs. pack B (frame_packet fs) = Inr bs"
proof -
  have ax: "take 6 (axes fs @ replicate 6 (Fin 0)) = axes fs"
    using assms by (simp add: frame_ok_def)
  obtain h where h: "pack_H (buttons_to_bitmask (buttons fs)) = Inr h"
    using bitmask_range[of "buttons fs"] by (simp add: pack_H_def)
  have "\<forall>a\<in>set (axes fs). \<exists>b. pack_f B a = Inr b"
    using assms pack_f_axis_ok by (auto simp: frame_ok_def list_all_iff)
  then obtain f4 where f4: "those_exn (map (pack_f B) (axes fs)) = Inr f4"
    using those_exn_map_total by blast
  obtain d where d: "pack_B (dpad_encode (dpad fs)) = Inr d"
    using dpad_encode_range[of "dpad fs"] assms by (simp add: frame_ok_def pack_B_def)
  show ?thesis
    using h f4 d checksum_range
    by (simp add: pack_def frame_packet_def ax Let_def pack_B_def HEADER_def del: take_append)
qed

text \<open>
  C2.  For every frame that satisfies the invariants, packing its packet succeeds and
  gives exactly 29 bytes, of which byte 0 is \<open>0xFF\<close> and byte 28 is the sum of bytes 1 to
  27 modulo 256.  The binary32 patterns of the axes are arbitrary.
\<close>

theorem pack_frame_29_bytes:
  assumes "frame_ok fs"
  shows "\<exists>bs. pack B (frame_packet fs) = Inr bs \<and> length bs = 29 \<and> bs ! 0 = 255
           \<and> uint (bs ! 28) = sum_list (map uint (take 27 (drop 1 bs))) mod 256"
  using pack_frame_ok[OF assms] pack_layout by blast

theorem pack_frame_29_bytes_witness:
  "frame_ok full_frame
   \<and> pack demo_builtins (frame_packet full_frame) =
       Inr [255, 255, 3, 0, 0, 128, 63, 0, 0, 128, 63, 0, 0, 128, 63, 0, 0, 128, 63,
            0, 0, 128, 63, 0, 0, 128, 63, 8, 132]
   \<and> (\<exists>bs. pack demo_builtins (frame_packet full_frame) = Inr bs \<and> length bs = 29
         \<and> bs ! 0 = 255
         \<and> uint (bs ! 28) = sum_list (map uint (take 27 (drop 1 bs))) mod 256)"
proof -
  have h: "frame_ok full_frame" by code_simp
  have e: "pack demo_builtins (frame_packet full_frame) =
       Inr [255, 255, 3, 0, 0, 128, 63, 0, 0, 128, 63, 0, 0, 128, 63, 0, 0, 128, 63,
            0, 0, 128, 63, 0, 0, 128, 63, 8, 132]"
    by code_simp
  show ?thesis
    using h e pack_frame_29_bytes[OF h, of demo_builtins] by blast
qed

subsection \<open>The modifiers\<close>

lemma frame_with_axes:
  "\<lparr>buttons = buttons s, axes = X, dpad = dpad s\<rparr> = s\<lparr>axes := X\<rparr>"
  by (cases s) simp

lemma pf_div_one: "is_double x \<Longrightarrow> pf_div x (Fin 1) = Inr x"
  by (cases x) simp_all

lemma nonneg_round64: "0 \<le> x \<Longrightarrow> nonneg_float (round64 x)"
  using round64_nonneg[of x] by (auto simp: nonneg_float_def)

lemma nonneg_square: "nonneg_float (pf_mul a a)"
  by (cases a) (simp_all add: nonneg_round64, simp_all add: nonneg_float_def)

lemma nonneg_float_Fin [simp]: "nonneg_float (Fin r) \<longleftrightarrow> 0 \<le> r"
  by (simp add: nonneg_float_def)

lemma nonneg_add: "nonneg_float a \<Longrightarrow> nonneg_float b \<Longrightarrow> nonneg_float (pf_add a b)"
  by (cases a; cases b) (simp_all add: nonneg_round64, simp_all add: nonneg_float_def)

lemma math_sqrt_nonneg: "nonneg_float x \<Longrightarrow> \<exists>m. math_sqrt x = Inr m"
  by (cases x) (simp_all add: nonneg_float_def)

lemma math_sqrt_squares: "\<exists>m. math_sqrt (pf_add (pf_mul a a) (pf_mul b b)) = Inr m"
  by (intro math_sqrt_nonneg nonneg_add nonneg_square)

lemma antirecoil_update_eq:
  assumes "6 \<le> length (axes s)" and "is_double (axes s ! 5)"
  shows "BasicAntiRecoilModifier_update m s =
     Inr (if pf_ge (axes s ! 5) (trigger_threshold m)
          then s\<lparr>axes := (axes s)[3 := pf_add (axes s ! 3)
                    (pf_mul (pf_abs (recoil_strength m)) (axes s ! 5))]\<rparr>
          else s)"
proof -
  obtain mg where mg: "math_sqrt (pf_add (pf_mul (axes s ! 2) (axes s ! 2))
      (pf_mul (axes s ! 3) (axes s ! 3))) = Inr mg"
    using math_sqrt_squares by blast
  show ?thesis
    using assms mg
    by (simp add: BasicAntiRecoilModifier_update_def Let_def seq_get_def pf_div_one
        frame_with_axes del: pf_div.simps)
qed

lemma those_exn_upt4:
  "those_exn (map f [0..<4]) = bind_exn (f 0) (\<lambda>a. bind_exn (f 1) (\<lambda>b. bind_exn (f 2) (\<lambda>c.
     bind_exn (f 3) (\<lambda>d. Inr [a, b, c, d]))))"
proof -
  have "[0..<4] = [0, 1, 2, 3::nat]" by (simp add: upt_rec)
  then show ?thesis by (simp add: bind_exn_def split: sum.splits)
qed

lemma pf_lt_irrefl: "\<not> pf_lt x x"
  by (cases x) simp_all

lemma pf_lt_le: "pf_lt a b \<Longrightarrow> pf_le a b"
  by (cases a; cases b) simp_all

lemma deadzones_nth:
  "i < 4 \<Longrightarrow> (replicate 2 l @ replicate 2 r) ! i = (if i < 2 then l else r)"
  by (auto simp: nth_append)

lemma deadzone_update_eq:
  assumes "4 \<le> length (axes s)"
  shows "DeadzoneModifier_update m s =
     Inr (s\<lparr>axes := [deadzone_value m (axes s) 0, deadzone_value m (axes s) 1, deadzone_value m (axes s) 2, deadzone_value m (axes s) 3]
                   @ drop 4 (axes s)\<rparr>)"
proof -
  have ax: "deadzone_axis (replicate 2 (deadzone_left m) @ replicate 2 (deadzone_right m))
      (axes s) i = Inr (deadzone_value m (axes s) i)" if "i < 4" for i
    using that assms
    by (simp add: deadzone_axis_def seq_get_def deadzone_value_def stick_deadzone_def deadzones_nth
        del: replicate.simps)
  show ?thesis
    using ax[of 0] ax[of 1] ax[of 2] ax[of 3]
    by (simp add: DeadzoneModifier_update_def Let_def those_exn_upt4 frame_with_axes
        del: replicate.simps)
qed

lemma hair_update_eq:
  assumes "6 \<le> length (axes s)"
  shows "HairTriggers_update m s =
     Inr (s\<lparr>axes := (axes s)[5 := (if pf_gt (axes s ! 5) (threshold m) then Fin 1 else Fin (- 1))]\<rparr>)"
  using assms by (simp add: HairTriggers_update_def Let_def seq_get_def frame_with_axes)

lemma frame_ok_update_axis:
  assumes "frame_ok s" "axis_ok v"
  shows "frame_ok (s\<lparr>axes := (axes s)[i := v]\<rparr>)"
proof -
  have "set ((axes s)[i := v]) \<subseteq> insert v (set (axes s))"
    by (rule set_update_subset_insert)
  then have "list_all axis_ok ((axes s)[i := v])"
    using assms by (auto simp: frame_ok_def list_all_iff)
  then show ?thesis using assms by (simp add: frame_ok_def)
qed

lemma frame_ok_nth: "frame_ok s \<Longrightarrow> i < 6 \<Longrightarrow> axis_ok (axes s ! i)"
  by (simp add: frame_ok_def list_all_length)

lemma dz_ok: "frame_ok s \<Longrightarrow> i < 6 \<Longrightarrow> axis_ok (deadzone_value m (axes s) i)"
  by (simp add: deadzone_value_def frame_ok_nth axis_ok_zero)

lemma deadzone_frame_ok:
  assumes "frame_ok s"
  shows "\<exists>s'. DeadzoneModifier_update m s = Inr s' \<and> frame_ok s'"
proof -
  have l: "4 \<le> length (axes s)" using assms by (simp add: frame_ok_def)
  have "list_all axis_ok (drop 4 (axes s))"
    using assms unfolding frame_ok_def list_all_iff by (meson in_set_dropD)
  then have "frame_ok (s\<lparr>axes := [deadzone_value m (axes s) 0, deadzone_value m (axes s) 1, deadzone_value m (axes s) 2, deadzone_value m (axes s) 3]
                   @ drop 4 (axes s)\<rparr>)"
    using assms dz_ok[OF assms, of 0 m] dz_ok[OF assms, of 1 m] dz_ok[OF assms, of 2 m]
      dz_ok[OF assms, of 3 m]
    by (simp add: frame_ok_def)
  then show ?thesis by (simp add: deadzone_update_eq[OF l])
qed

lemma hair_frame_ok:
  assumes "frame_ok s"
  shows "\<exists>s'. HairTriggers_update m s = Inr s' \<and> frame_ok s'"
proof -
  have l: "6 \<le> length (axes s)" using assms by (simp add: frame_ok_def)
  have "axis_ok (if pf_gt (axes s ! 5) (threshold m) then Fin 1 else Fin (- 1))"
    by (simp add: axis_ok_def)
  then show ?thesis
    using frame_ok_update_axis[OF assms] by (simp add: hair_update_eq[OF l])
qed

lemma nudge_left_ok:
  assumes "axis_ok a"
  shows "axis_ok (py_max (Fin (- 1)) (pf_sub a (Fin (1 / 2))))"
proof -
  from assms obtain r where a: "a = Fin r" and r: "- 1 \<le> r" "r \<le> 1"
    by (cases a) (auto simp: axis_ok_def)
  have v: "pf_sub a (Fin (1 / 2)) = round64 (r - 1 / 2)" by (simp add: a pf_sub_def)
  have "pf_le (round64 (r - 1 / 2)) (Fin 1)" using r by (intro round64_le_one) simp
  then show ?thesis
    unfolding v by (auto simp: axis_ok_def py_max_def pf_gt_def pf_lt_le)
qed

lemma nudge_right_ok:
  assumes "axis_ok a"
  shows "axis_ok (py_min (Fin 1) (pf_add a (Fin (1 / 2))))"
proof -
  from assms obtain r where a: "a = Fin r" and r: "- 1 \<le> r" "r \<le> 1"
    by (cases a) (auto simp: axis_ok_def)
  have v: "pf_add a (Fin (1 / 2)) = round64 (r + 1 / 2)" by (simp add: a)
  have "pf_le (Fin (- 1)) (round64 (r + 1 / 2))" using r by (intro round64_ge_minus_one) simp
  then show ?thesis
    unfolding v by (auto simp: axis_ok_def py_min_def pf_lt_le)
qed

lemma twitch_frame_ok:
  assumes "frame_ok s"
  shows "\<exists>s' q'. TwitchChatModifier_update q s = (Inr s', q') \<and> frame_ok s'"
proof (cases q)
  case Nil
  then show ?thesis using assms by (simp add: TwitchChatModifier_update_def)
next
  case (Cons msg rest)
  have l: "0 < length (axes s)" using assms by (simp add: frame_ok_def)
  have a0: "axis_ok (axes s ! 0)" using assms by (simp add: frame_ok_nth)
  show ?thesis
    using l frame_ok_update_axis[OF assms nudge_left_ok[OF a0], of 0]
      frame_ok_update_axis[OF assms nudge_right_ok[OF a0], of 0] assms
    by (simp add: TwitchChatModifier_update_def Cons Let_def seq_get_def frame_with_axes)
qed

lemma antirecoil_frame_shape:
  assumes "frame_ok s" and "is_double (axes s ! 5)"
  shows "\<exists>s'. BasicAntiRecoilModifier_update m s = Inr s'
     \<and> length (buttons s') = 10 \<and> length (axes s') = 6
     \<and> hat_ok (fst (dpad s')) \<and> hat_ok (snd (dpad s'))
     \<and> (\<forall>i<6. i \<noteq> 3 \<longrightarrow> axis_ok (axes s' ! i))
     \<and> (frame_ok s' \<longleftrightarrow>
          (\<not> pf_ge (axes s ! 5) (trigger_threshold m)
           \<or> axis_ok (pf_add (axes s ! 3) (pf_mul (pf_abs (recoil_strength m)) (axes s ! 5)))))"
proof -
  have l: "6 \<le> length (axes s)" using assms by (simp add: frame_ok_def)
  define v where "v = pf_add (axes s ! 3) (pf_mul (pf_abs (recoil_strength m)) (axes s ! 5))"
  show ?thesis
  proof (cases "pf_ge (axes s ! 5) (trigger_threshold m)")
    case False
    then show ?thesis
      using assms by (simp add: antirecoil_update_eq[OF l assms(2)] frame_ok_def frame_ok_nth)
  next
    case True
    define s' where "s' = s\<lparr>axes := (axes s)[3 := v]\<rparr>"
    have eq: "BasicAntiRecoilModifier_update m s = Inr s'"
      using True by (simp add: antirecoil_update_eq[OF l assms(2)] s'_def v_def)
    have shape: "length (buttons s') = 10" "length (axes s') = 6"
      "hat_ok (fst (dpad s'))" "hat_ok (snd (dpad s'))"
      using assms by (simp_all add: s'_def frame_ok_def)
    have others: "axis_ok (axes s' ! i)" if "i < 6" "i \<noteq> 3" for i
      using that frame_ok_nth[OF assms(1), of i] by (simp add: s'_def)
    have "axes s' ! 3 = v" using l by (simp add: s'_def)
    then have "frame_ok s' \<Longrightarrow> axis_ok v"
      using frame_ok_nth[of s' 3] by simp
    moreover have "axis_ok v \<Longrightarrow> frame_ok s'"
      unfolding s'_def by (rule frame_ok_update_axis[OF assms(1)])
    ultimately have iff: "frame_ok s' \<longleftrightarrow> axis_ok v" by blast
    show ?thesis
      using eq shape others iff True unfolding v_def by blast
  qed
qed

text \<open>
  C7, as amended.  For a frame with its six axes and a right trigger (a float) at or
  above the threshold, the anti-recoil modifier returns the frame with right-stick-Y
  replaced by the input value plus \<open>abs(strength) * trigger\<close>, product and sum each
  rounded as binary64 arithmetic rounds them, and with every other axis, the buttons and
  the dpad unchanged; when the trigger is not at or above the threshold the frame is
  returned unchanged.
\<close>

theorem antirecoil_adds_abs_strength:
  assumes "6 \<le> length (axes s)" and "is_double (axes s ! 5)"
  shows "\<exists>s'. BasicAntiRecoilModifier_update m s = Inr s'
     \<and> (pf_ge (axes s ! 5) (trigger_threshold m) \<longrightarrow>
          axes s' ! 3 = pf_add (axes s ! 3) (pf_mul (pf_abs (recoil_strength m)) (axes s ! 5))
          \<and> (\<forall>i. i \<noteq> 3 \<longrightarrow> axes s' ! i = axes s ! i)
          \<and> length (axes s') = length (axes s)
          \<and> buttons s' = buttons s \<and> dpad s' = dpad s)
     \<and> (\<not> pf_ge (axes s ! 5) (trigger_threshold m) \<longrightarrow> s' = s)"
  using assms by (simp add: antirecoil_update_eq[OF assms])

theorem antirecoil_adds_abs_strength_witness:
  "6 \<le> length (axes fire_frame)
   \<and> is_double (axes fire_frame ! 5)
   \<and> pf_ge (axes fire_frame ! 5) (trigger_threshold BasicAntiRecoilModifier_init)
   \<and> recoil_strength BasicAntiRecoilModifier_init = Fin (5404319552844595 / 2 ^ 54)
   \<and> (\<exists>s'. BasicAntiRecoilModifier_update BasicAntiRecoilModifier_init fire_frame = Inr s'
         \<and> axes s' ! 3 = Fin (5404319552844595 / 2 ^ 54) \<and> axes s' ! 2 = Fin 0
         \<and> axes s' ! 5 = Fin 1
         \<and> length (axes s') = 6 \<and> buttons s' = replicate 10 False \<and> dpad s' = (0, 0))"
proof -
  have l: "6 \<le> length (axes fire_frame)" by (simp add: fire_frame_def)
  have d: "is_double (axes fire_frame ! 5)" by code_simp
  have g: "pf_ge (axes fire_frame ! 5) (trigger_threshold BasicAntiRecoilModifier_init)"
    by code_simp
  have s: "recoil_strength BasicAntiRecoilModifier_init = Fin (5404319552844595 / 2 ^ 54)"
    by code_simp
  have v: "pf_add (axes fire_frame ! 3)
      (pf_mul (pf_abs (recoil_strength BasicAntiRecoilModifier_init)) (axes fire_frame ! 5))
      = Fin (5404319552844595 / 2 ^ 54)"
    by code_simp
  have f: "axes fire_frame ! 2 = Fin 0" "axes fire_frame ! 5 = Fin 1"
    "length (axes fire_frame) = 6" "buttons fire_frame = replicate 10 False"
    "dpad fire_frame = (0, 0)"
    by (simp_all add: fire_frame_def)
  from antirecoil_adds_abs_strength[OF l d, of BasicAntiRecoilModifier_init] g
  obtain s' where "BasicAntiRecoilModifier_update BasicAntiRecoilModifier_init fire_frame = Inr s'"
    "axes s' ! 3 = pf_add (axes fire_frame ! 3)
      (pf_mul (pf_abs (recoil_strength BasicAntiRecoilModifier_init)) (axes fire_frame ! 5))"
    "\<And>i. i \<noteq> 3 \<Longrightarrow> axes s' ! i = axes fire_frame ! i"
    "length (axes s') = length (axes fire_frame)"
    "buttons s' = buttons fire_frame" "dpad s' = dpad fire_frame"
    by blast
  then show ?thesis
    using l d g s v f by auto
qed

text \<open>
  C7 as stated fails for a negative strength: with the strength attribute at \<open>-0.3\<close> and
  the trigger at \<open>1.0\<close> the modifier turns right-stick-Y \<open>0.0\<close> into \<open>0.3\<close>, while input
  plus \<open>strength * trigger\<close> is \<open>-0.3\<close> (\<open>0.3\<close> being the float
  \<open>5404319552844595 / 2^54\<close>).
\<close>

theorem antirecoil_strength_counterexample:
  "pf_ge (axes fire_frame ! 5) (trigger_threshold reversed_recoil)
   \<and> recoil_strength reversed_recoil = Fin (- (5404319552844595 / 2 ^ 54))
   \<and> BasicAntiRecoilModifier_update reversed_recoil fire_frame =
       Inr (fire_frame\<lparr>axes :=
              [Fin 0, Fin 0, Fin 0, Fin (5404319552844595 / 2 ^ 54), Fin 0, Fin 1]\<rparr>)
   \<and> pf_add (axes fire_frame ! 3)
        (pf_mul (recoil_strength reversed_recoil) (axes fire_frame ! 5))
       = Fin (- (5404319552844595 / 2 ^ 54))
   \<and> BasicAntiRecoilModifier_update reversed_recoil fire_frame \<noteq>
       Inr (fire_frame\<lparr>axes := (axes fire_frame)[3 := pf_add (axes fire_frame ! 3)
             (pf_mul (recoil_strength reversed_recoil) (axes fire_frame ! 5))]\<rparr>)"
proof -
  have l: "6 \<le> length (axes fire_frame)" by (simp add: fire_frame_def)
  have d: "is_double (axes fire_frame ! 5)" by code_simp
  have g: "pf_ge (axes fire_frame ! 5) (trigger_threshold reversed_recoil)" by code_simp
  have s: "recoil_strength reversed_recoil = Fin (- (5404319552844595 / 2 ^ 54))" by code_simp
  have v: "pf_add (axes fire_frame ! 3)
      (pf_mul (pf_abs (recoil_strength reversed_recoil)) (axes fire_frame ! 5))
      = Fin (5404319552844595 / 2 ^ 54)"
    by code_simp
  have c: "pf_add (axes fire_frame ! 3)
        (pf_mul (recoil_strength reversed_recoil) (axes fire_frame ! 5))
       = Fin (- (5404319552844595 / 2 ^ 54))"
    by code_simp
  have e: "BasicAntiRecoilModifier_update reversed_recoil fire_frame =
       Inr (fire_frame\<lparr>axes :=
              [Fin 0, Fin 0, Fin 0, Fin (5404319552844595 / 2 ^ 54), Fin 0, Fin 1]\<rparr>)"
    unfolding antirecoil_update_eq[OF l d] using g by (simp add: v) (simp add: fire_frame_def)
  have n: "BasicAntiRecoilModifier_update reversed_recoil fire_frame \<noteq>
       Inr (fire_frame\<lparr>axes := (axes fire_frame)[3 := pf_add (axes fire_frame ! 3)
             (pf_mul (recoil_strength reversed_recoil) (axes fire_frame ! 5))]\<rparr>)"
    unfolding e c by (simp add: fire_frame_def)
  show ?thesis using g s e c n by blast
qed

text \<open>
  C8.  On a frame with its four stick axes the deadzone modifier returns a frame whose
  stick axis \<open>i\<close> is \<open>0.0\<close> when \<open>abs\<close> of the input is strictly below the deadzone of
  that stick and the input value otherwise; a value whose \<open>abs\<close> equals the deadzone is
  passed through; the axes from index 4 on, the buttons and the dpad are unchanged.
\<close>

theorem deadzone_update_effect:
  assumes "4 \<le> length (axes s)"
  shows "\<exists>s'. DeadzoneModifier_update m s = Inr s'
    \<and> buttons s' = buttons s \<and> dpad s' = dpad s
    \<and> length (axes s') = length (axes s) \<and> drop 4 (axes s') = drop 4 (axes s)
    \<and> (\<forall>i<4. axes s' ! i =
          (if pf_lt (pf_abs (axes s ! i)) (stick_deadzone m i) then Fin 0 else axes s ! i))
    \<and> (\<forall>i<4. pf_abs (axes s ! i) = stick_deadzone m i \<longrightarrow> axes s' ! i = axes s ! i)"
proof -
  define s' where "s' = s\<lparr>axes := [deadzone_value m (axes s) 0, deadzone_value m (axes s) 1,
      deadzone_value m (axes s) 2, deadzone_value m (axes s) 3] @ drop 4 (axes s)\<rparr>"
  have eq: "DeadzoneModifier_update m s = Inr s'"
    by (simp add: deadzone_update_eq[OF assms] s'_def)
  have four: "i = 0 \<or> i = 1 \<or> i = 2 \<or> i = 3" if "i < 4" for i :: nat
    using that by arith
  have nth: "axes s' ! i = deadzone_value m (axes s) i" if "i < 4" for i
    using four[OF that] by (auto simp: s'_def)
  have bnd: "axes s' ! i = axes s ! i"
    if "i < 4" "pf_abs (axes s ! i) = stick_deadzone m i" for i
    using that nth[of i] by (simp add: deadzone_value_def pf_lt_irrefl)
  have rest: "buttons s' = buttons s" "dpad s' = dpad s" "length (axes s') = length (axes s)"
    "drop 4 (axes s') = drop 4 (axes s)"
    using assms by (simp_all add: s'_def)
  show ?thesis
    using eq rest nth bnd unfolding deadzone_value_def by blast
qed

theorem deadzone_update_effect_witness:
  "4 \<le> length (axes boundary_frame)
   \<and> (\<exists>s'. DeadzoneModifier_update (DeadzoneModifier_init (Fin (1 / 4)) (Fin (1 / 4)))
              boundary_frame = Inr s'
         \<and> axes s' ! 0 = Fin (1 / 4) \<and> axes s' ! 1 = Fin 0 \<and> axes s' ! 2 = Fin (- (1 / 4))
         \<and> axes s' ! 3 = Fin (5 / 16) \<and> drop 4 (axes s') = [Fin (1 / 8), Fin (- 1)]
         \<and> buttons s' = replicate 10 False \<and> dpad s' = (0, 1))"
proof -
  have l: "4 \<le> length (axes boundary_frame)" by (simp add: boundary_frame_def)
  from deadzone_update_effect[OF l, of "DeadzoneModifier_init (Fin (1 / 4)) (Fin (1 / 4))"]
  obtain s' where eq: "DeadzoneModifier_update (DeadzoneModifier_init (Fin (1 / 4)) (Fin (1 / 4)))
        boundary_frame = Inr s'"
    and rest: "buttons s' = buttons boundary_frame" "dpad s' = dpad boundary_frame"
      "drop 4 (axes s') = drop 4 (axes boundary_frame)"
    and nth: "\<And>i. i < 4 \<Longrightarrow> axes s' ! i =
          (if pf_lt (pf_abs (axes boundary_frame ! i))
                (stick_deadzone (DeadzoneModifier_init (Fin (1 / 4)) (Fin (1 / 4))) i)
           then Fin 0 else axes boundary_frame ! i)"
    by blast
  show ?thesis
    using l eq rest nth[of 0] nth[of 1] nth[of 2] nth[of 3]
    by (simp add: boundary_frame_def stick_deadzone_def DeadzoneModifier_init_def)
qed

text \<open>
  C6 as stated fails for the anti-recoil modifier: on the frame with every axis at
  \<open>1.0\<close> the default modifier returns right-stick-Y \<open>1.3\<close> (the float
  \<open>5854679515581645 / 2^52\<close>).
\<close>

theorem antirecoil_range_counterexample:
  "frame_ok full_frame
   \<and> BasicAntiRecoilModifier_update BasicAntiRecoilModifier_init full_frame =
       Inr (full_frame\<lparr>axes :=
              [Fin 1, Fin 1, Fin 1, Fin (5854679515581645 / 2 ^ 52), Fin 1, Fin 1]\<rparr>)
   \<and> \<not> frame_ok (full_frame\<lparr>axes :=
              [Fin 1, Fin 1, Fin 1, Fin (5854679515581645 / 2 ^ 52), Fin 1, Fin 1]\<rparr>)"
proof -
  have l: "6 \<le> length (axes full_frame)" by (simp add: full_frame_def)
  have d: "is_double (axes full_frame ! 5)" by code_simp
  have h: "frame_ok full_frame" by code_simp
  have g: "pf_ge (axes full_frame ! 5) (trigger_threshold BasicAntiRecoilModifier_init)"
    by code_simp
  have v: "pf_add (axes full_frame ! 3)
      (pf_mul (pf_abs (recoil_strength BasicAntiRecoilModifier_init)) (axes full_frame ! 5))
      = Fin (5854679515581645 / 2 ^ 52)"
    by code_simp
  have e: "BasicAntiRecoilModifier_update BasicAntiRecoilModifier_init full_frame =
       Inr (full_frame\<lparr>axes :=
              [Fin 1, Fin 1, Fin 1, Fin (5854679515581645 / 2 ^ 52), Fin 1, Fin 1]\<rparr>)"
    unfolding antirecoil_update_eq[OF l d] using g
    by (simp add: v) (simp add: full_frame_def numeral_eq_Suc)
  have n: "\<not> frame_ok (full_frame\<lparr>axes :=
              [Fin 1, Fin 1, Fin 1, Fin (5854679515581645 / 2 ^ 52), Fin 1, Fin 1]\<rparr>)"
    by (simp add: frame_ok_def axis_ok_def)
  show ?thesis using h e n by blast
qed

text \<open>
  C6, as amended.  On every frame that satisfies the invariants (its right trigger a
  float), the deadzone, the hair-trigger and the chat modifier return a frame that
  satisfies them.  The anti-recoil modifier returns a frame with ten buttons, six axes,
  a valid dpad and every axis other than right-stick-Y in range; its right-stick-Y is
  not clamped, and the result satisfies the invariants exactly when the trigger is not
  at or above the threshold or the input right-stick-Y plus \<open>abs(strength) * trigger\<close>,
  as binary64 arithmetic computes it, lies in \<open>[-1, 1]\<close>.  The example has the stick at
  \<open>0.7000000000000001\<close> and the trigger at \<open>1.0\<close>: the sum rounds to \<open>1.0\<close>.
\<close>

theorem modifiers_frame_ok:
  assumes "frame_ok s" and "is_double (axes s ! 5)"
  shows "(\<exists>s'. DeadzoneModifier_update dm s = Inr s' \<and> frame_ok s')
   \<and> (\<exists>s'. HairTriggers_update ht s = Inr s' \<and> frame_ok s')
   \<and> (\<exists>s' q'. TwitchChatModifier_update q s = (Inr s', q') \<and> frame_ok s')
   \<and> (\<exists>s'. BasicAntiRecoilModifier_update ar s = Inr s'
         \<and> length (buttons s') = 10 \<and> length (axes s') = 6
         \<and> hat_ok (fst (dpad s')) \<and> hat_ok (snd (dpad s'))
         \<and> (\<forall>i<6. i \<noteq> 3 \<longrightarrow> axis_ok (axes s' ! i))
         \<and> (frame_ok s' \<longleftrightarrow>
              (\<not> pf_ge (axes s ! 5) (trigger_threshold ar)
               \<or> axis_ok (pf_add (axes s ! 3)
                    (pf_mul (pf_abs (recoil_strength ar)) (axes s ! 5))))))"
  using deadzone_frame_ok[OF assms(1)] hair_frame_ok[OF assms(1)] twitch_frame_ok[OF assms(1)]
    antirecoil_frame_shape[OF assms]
  by blast

theorem modifiers_frame_ok_witness:
  "frame_ok edge_frame
   \<and> is_double (axes edge_frame ! 5)
   \<and> pf_ge (axes edge_frame ! 5) (trigger_threshold BasicAntiRecoilModifier_init)
   \<and> pf_add (axes edge_frame ! 3)
        (pf_mul (pf_abs (recoil_strength BasicAntiRecoilModifier_init)) (axes edge_frame ! 5))
       = Fin 1
   \<and> (\<exists>s'. DeadzoneModifier_update (DeadzoneModifier_init (Fin (1 / 4)) (Fin (1 / 4)))
              edge_frame = Inr s' \<and> frame_ok s')
   \<and> (\<exists>s'. HairTriggers_update \<lparr>threshold = Fin (1 / 8)\<rparr> edge_frame = Inr s' \<and> frame_ok s')
   \<and> (\<exists>s' q'. TwitchChatModifier_update [[(PStr ''msg'', PStr ''left'')]] edge_frame
                 = (Inr s', q') \<and> frame_ok s')
   \<and> (\<exists>s'. BasicAntiRecoilModifier_update BasicAntiRecoilModifier_init edge_frame = Inr s'
         \<and> frame_ok s')"
proof -
  have h: "frame_ok edge_frame" by code_simp
  have d: "is_double (axes edge_frame ! 5)" by code_simp
  have g: "pf_ge (axes edge_frame ! 5) (trigger_threshold BasicAntiRecoilModifier_init)"
    by code_simp
  have v: "pf_add (axes edge_frame ! 3)
        (pf_mul (pf_abs (recoil_strength BasicAntiRecoilModifier_init)) (axes edge_frame ! 5))
       = Fin 1"
    by code_simp
  have a: "axis_ok (Fin 1)" by (simp add: axis_ok_def)
  show ?thesis
    using h d g v a modifiers_frame_ok[OF h d, of "DeadzoneModifier_init (Fin (1 / 4)) (Fin (1 / 4))"
        "\<lparr>threshold = Fin (1 / 8)\<rparr>" "[[(PStr ''msg'', PStr ''left'')]]"
        BasicAntiRecoilModifier_init]
    by auto
qed

subsection \<open>Sending\<close>

lemma upper_mock: "take 4 name = ''MOCK'' \<Longrightarrow> take 4 (map upper_char name) = ''MOCK''"
proof -
  assume a: "take 4 name = ''MOCK''"
  have "take 4 (map upper_char name) = map upper_char (take 4 name)"
    by (simp add: take_map)
  also have "\<dots> = ''MOCK''" unfolding a by (simp add: upper_char_def)
  finally show ?thesis .
qed

text \<open>
  C10.  \<open>send_frame\<close> raises \<open>TypeError\<close> for an argument that is not a \<open>FrameState\<close>,
  and \<open>RuntimeError\<close> for a \<open>FrameState\<close> on an interface without a port; in both cases the
  interface, and with it whatever a port has recorded, is as before.  An interface made
  from no port name or from a name starting with \<open>MOCK\<close> has no port.
\<close>

theorem send_frame_raises:
  "send_frame B si (NotFrame v) = (Some TypeError, si)
   \<and> (ser si = None \<longrightarrow> send_frame B si (IsFrame fs) = (Some RuntimeError, si))
   \<and> SerialInterface_init open_port None = Inr \<lparr>ser = None\<rparr>
   \<and> (take 4 name = ''MOCK'' \<longrightarrow> SerialInterface_init open_port (Some name) = Inr \<lparr>ser = None\<rparr>)"
  by (simp add: send_frame_def Let_def SerialInterface_init_def upper_mock)

theorem send_frame_raises_witness:
  "take 4 ''MOCK1'' = ''MOCK''
   \<and> SerialInterface_init no_device (Some ''MOCK1'') = Inr \<lparr>ser = None\<rparr>
   \<and> SerialInterface_init no_device None = Inr \<lparr>ser = None\<rparr>
   \<and> ser \<lparr>ser = None\<rparr> = None
   \<and> send_frame demo_builtins \<lparr>ser = None\<rparr> (IsFrame default_state)
       = (Some RuntimeError, \<lparr>ser = None\<rparr>)
   \<and> send_frame demo_builtins \<lparr>ser = Some fresh_port\<rparr> (NotFrame (PStr ''frame''))
       = (Some TypeError, \<lparr>ser = Some fresh_port\<rparr>)"
  using send_frame_raises[of demo_builtins "\<lparr>ser = None\<rparr>" "PStr ''frame''" default_state
      no_device "''MOCK1''"]
    send_frame_raises[of demo_builtins "\<lparr>ser = Some fresh_port\<rparr>" "PStr ''frame''" default_state
      no_device "''MOCK1''"]
  by simp

subsection \<open>The pipeline\<close>

lemma send_frame_cases:
  assumes "send_frame B si a = (r, si')"
  shows "(r = None \<and> (\<exists>port data. ser si = Some port
            \<and> si' = si\<lparr>ser := Some (port\<lparr>written_data := written_data port @ [data]\<rparr>)\<rparr>))
       \<or> (r \<noteq> None \<and> si' = si)"
  using assms
  by (auto simp: send_frame_def Let_def ser_write_def
      split: frame_arg.splits option.splits sum.splits)

lemma rate_gate_send_cases:
  assumes "rate_gate_send B p now st = (r, p')"
  shows "(p' = p \<and> (r = Inr (Some st) \<or> now - last_send p \<ge> send_interval p))
       \<or> (r = Inr (Some st) \<and> now - last_send p \<ge> send_interval p
           \<and> (\<exists>data. transmitted p' = transmitted p @ [data])
           \<and> last_send p' = now \<and> send_interval p' = send_interval p)"
proof (cases "serial p")
  case None
  then show ?thesis using assms by (auto simp: rate_gate_send_def)
next
  case (Some si)
  show ?thesis
  proof (cases "now - last_send p \<ge> send_interval p")
    case False
    then show ?thesis using assms Some by (auto simp: rate_gate_send_def)
  next
    case True
    obtain r0 si' where sf: "send_frame B si (IsFrame st) = (r0, si')"
      by (cases "send_frame B si (IsFrame st)")
    from send_frame_cases[OF sf] show ?thesis
    proof
      assume "r0 = None \<and> (\<exists>port data. ser si = Some port
            \<and> si' = si\<lparr>ser := Some (port\<lparr>written_data := written_data port @ [data]\<rparr>)\<rparr>)"
      then show ?thesis
        using assms Some True sf by (auto simp: rate_gate_send_def transmitted_def)
    next
      assume "r0 \<noteq> None \<and> si' = si"
      then have "p' = p" 
        using assms Some True sf by (auto simp: rate_gate_send_def)
      then show ?thesis using True by simp
    qed
  qed
qed

lemma update_cases:
  assumes "InputPipeline_update B p now w = (r, p', w')"
  shows "p' = p \<or> (\<exists>st. rate_gate_send B p now st = (r, p'))"
  using assms
  by (auto simp: InputPipeline_update_def split: prod.splits sum.splits option.splits)

lemma update_tick:
  assumes "InputPipeline_update B p now w = (r, p', w')"
  shows "p' = p
       \<or> (now - last_send p \<ge> send_interval p
           \<and> (\<exists>data. transmitted p' = transmitted p @ [data])
           \<and> last_send p' = now \<and> send_interval p' = send_interval p)"
  using update_cases[OF assms] rate_gate_send_cases by blast

text \<open>
  C4.  A tick adds to what the port has been sent only if \<open>now - last_send\<close> is at least
  \<open>send_interval\<close>, and at most one packet; \<open>last_send\<close> changes only in a tick that
  sends, and then becomes \<open>now\<close>.  Hence of two consecutive ticks whose clock readings
  are less than \<open>send_interval\<close> apart at most one sends.  Whatever happens outside the
  pipeline between the two ticks is arbitrary.
\<close>

theorem rate_gate:
  assumes "InputPipeline_update B p now1 w = (r1, p1, w1)"
      and "InputPipeline_update B p1 now2 w1' = (r2, p2, w2)"
  shows "(transmitted p1 \<noteq> transmitted p \<longrightarrow> now1 - last_send p \<ge> send_interval p)
       \<and> (last_send p1 \<noteq> last_send p \<longrightarrow> transmitted p1 \<noteq> transmitted p)
       \<and> (transmitted p1 \<noteq> transmitted p \<longrightarrow> last_send p1 = now1)
       \<and> length (transmitted p1) \<le> length (transmitted p) + 1
       \<and> (now2 - now1 < send_interval p \<longrightarrow>
            length (transmitted p2) \<le> length (transmitted p) + 1)"
proof -
  note t1 = update_tick[OF assms(1)]
  note t2 = update_tick[OF assms(2)]
  show ?thesis
    using t1 t2 by (elim disjE) auto
qed

theorem rate_gate_witness:
  "fst first_tick = Inr (Some default_state)
   \<and> transmitted demo_pipeline = []
   \<and> transmitted (fst (snd first_tick)) = [neutral_bytes]
   \<and> last_send (fst (snd first_tick)) = 1
   \<and> (1 + 2 / 1000) - 1 < send_interval demo_pipeline
   \<and> fst second_tick = Inr (Some default_state)
   \<and> transmitted (fst (snd second_tick)) = [neutral_bytes]
   \<and> last_send (fst (snd second_tick)) = 1
   \<and> length (transmitted (fst (snd second_tick))) \<le> length (transmitted demo_pipeline) + 1"
proof -
  have t1: "InputPipeline_update demo_builtins demo_pipeline 1 [] =
      (fst first_tick, fst (snd first_tick), snd (snd first_tick))"
    by (simp add: first_tick_def)
  have t2: "InputPipeline_update demo_builtins (fst (snd first_tick)) (1 + 2 / 1000)
        (snd (snd first_tick)) =
      (fst second_tick, fst (snd second_tick), snd (snd second_tick))"
    by (simp add: second_tick_def)
  have e: "fst first_tick = Inr (Some default_state)" "transmitted demo_pipeline = []"
    "transmitted (fst (snd first_tick)) = [neutral_bytes]"
    "last_send (fst (snd first_tick)) = 1"
    "(1 + 2 / 1000) - 1 < send_interval demo_pipeline"
    "fst second_tick = Inr (Some default_state)"
    "transmitted (fst (snd second_tick)) = [neutral_bytes]"
    "last_send (fst (snd second_tick)) = 1"
    by code_simp+
  show ?thesis
    using e rate_gate[OF t1 t2] by simp
qed





text \<open>
  C5 as stated fails: when the generator raises, the tick ends with that exception and
  so does \<open>run_loop\<close>.
\<close>

theorem generator_fault_counterexample:
  "fst (InputPipeline_update demo_builtins faulty_pipeline 1 []) = Inl (UserException ''device lost'')
   \<and> fst (run_loop demo_builtins faulty_pipeline [] [1, 2]) = Crashed (UserException ''device lost'')"
  by (simp add: InputPipeline_update_def combine_generators_def faulty_pipeline_def
      failing_generator_def)

text \<open>
  C5, as amended.  When \<open>generate()\<close> of the first registered generator raises, the tick
  raises that exception; it calls no observer and no modifier (the world is as the
  generator left it), sends nothing and leaves \<open>last_send\<close> alone (the pipeline is
  unchanged).  \<open>run_loop\<close> ends in that tick: with the exception, or by its shutdown
  when the exception is \<open>KeyboardInterrupt\<close>.
\<close>

theorem generator_fault_propagates:
  assumes "generators p = g # gs" and "g w = (Inl e, w1)"
  shows "InputPipeline_update B p now w = (Inl e, p, w1)
       \<and> run_loop B p w (now # nows) =
           (if e = KeyboardInterrupt then (Stopped, close_serial p, w1) else (Crashed e, p, w1))"
  using assms by (simp add: InputPipeline_update_def combine_generators_def)

theorem generator_fault_propagates_witness:
  "generators faulty_pipeline = [failing_generator (UserException ''device lost'')]
   \<and> failing_generator (UserException ''device lost'') [] =
       (Inl (UserException ''device lost''), [''generate''])
   \<and> InputPipeline_update demo_builtins faulty_pipeline 1 [] =
       (Inl (UserException ''device lost''), faulty_pipeline, [''generate''])
   \<and> run_loop demo_builtins faulty_pipeline [] [1, 2] =
       (Crashed (UserException ''device lost''), faulty_pipeline, [''generate''])"
proof -
  have g: "generators faulty_pipeline = [failing_generator (UserException ''device lost'')]"
    by (simp add: faulty_pipeline_def)
  have f: "failing_generator (UserException ''device lost'') [] =
       (Inl (UserException ''device lost''), [''generate''])"
    by (simp add: failing_generator_def)
  show ?thesis
    using g f generator_fault_propagates[OF g f, of demo_builtins 1 "[2]"] by simp
qed

end
